theory Spec2Isabelle
  imports Complex_Main "HOL-Library.Multiset"
begin

section \<open>Data model\<close>

text \<open>
  The records that \<^verbatim>\<open>SolanaService\<close> passes around. A holder is the object
  \<^verbatim>\<open>{ account, amount }\<close> built by \<^verbatim>\<open>getAllTokenHolders\<close>; the amount stays a
  string until \<^verbatim>\<open>calculateHHI\<close> parses it. A top holder is the object
  \<^verbatim>\<open>{ account, amount, percentage }\<close> built by the \<^verbatim>\<open>map\<close> of \<^verbatim>\<open>calculateHHI\<close>.
\<close>

record holder =
  account :: string
  amount :: string

record top_holder = holder +
  percentage :: rat

record hhi_result =
  hhi :: int
  totalSupply :: string
  holderCount :: nat
  topHolders :: "top_holder list"
  concentrationLevel :: string

text \<open>A JavaScript \<^verbatim>\<open>Error\<close> with its message.\<close>

datatype error = Error (message: string)

text \<open>
  One element of \<^verbatim>\<open>response.value\<close>. \<open>Parsed owner amount\<close> is an element on which the
  filter and the map read \<^verbatim>\<open>acc.account.data.parsed.info.owner\<close> and, where they come to
  read it, \<^verbatim>\<open>...info.tokenAmount.amount\<close> without raising (the amount of an element with
  an excluded owner is never read); \<open>Malformed\<close> is an element on which one of these
  reads raises a TypeError.
\<close>

datatype raw_account = Parsed (owner: string) (tokenAmount: string) | Malformed

text \<open>
  The parameters of one \<^verbatim>\<open>getProgramAccounts\<close> call that vary, and what
  \<^verbatim>\<open>rpcRequest\<close> does with it: it raises (transport error, timeout, error envelope),
  or it returns a response. \<open>Result None\<close> is a response without a \<^verbatim>\<open>value\<close> array
  (\<^verbatim>\<open>response?.value\<close> is undefined). The loop asks for each page at most once, so a
  function from requests to results stands for any sequence of answers of the service.
\<close>

record request =
  page :: nat
  limit :: nat

datatype rpc_result = Throws | Result "raw_account list option"

type_synonym upstream = "request \<Rightarrow> rpc_result"

section \<open>Built-ins of the language\<close>

subsection \<open>\<^verbatim>\<open>BigInt(string)\<close>\<close>

text \<open>
  \<^verbatim>\<open>BigInt(s)\<close> on a string follows StringToBigInt of ECMAScript: white space is trimmed,
  the empty text is 0, and otherwise the text is a run of decimal digits with an optional
  sign, or an unsigned run of digits after \<^verbatim>\<open>0x\<close>, \<^verbatim>\<open>0o\<close> or \<^verbatim>\<open>0b\<close>. Anything else
  raises a SyntaxError. Strings are ASCII here, so white space is the ASCII part of the
  language's white space (tab, line feed, vertical tab, form feed, carriage return, space).
\<close>

definition is_white_space :: "char \<Rightarrow> bool" where
  "is_white_space c = (of_char c \<in> {9, 10, 11, 12, 13, 32 :: nat})"

definition trim :: "string \<Rightarrow> string" where
  "trim s = rev (dropWhile is_white_space (rev (dropWhile is_white_space s)))"

definition digit_value :: "char \<Rightarrow> nat option" where
  "digit_value c =
     (let n = of_char c :: nat in
      if 48 \<le> n \<and> n \<le> 57 then Some (n - 48)
      else if 97 \<le> n \<and> n \<le> 102 then Some (n - 87)
      else if 65 \<le> n \<and> n \<le> 70 then Some (n - 55)
      else None)"

fun parse_digits :: "nat \<Rightarrow> string \<Rightarrow> nat \<Rightarrow> nat option" where
  "parse_digits b [] acc = Some acc"
| "parse_digits b (c # cs) acc =
     (case digit_value c of
        None \<Rightarrow> None
      | Some d \<Rightarrow> if d < b then parse_digits b cs (acc * b + d) else None)"

definition digits :: "nat \<Rightarrow> string \<Rightarrow> nat option" where
  "digits b s = (if s = [] then None else parse_digits b s 0)"

definition StringToBigInt :: "string \<Rightarrow> int option" where
  "StringToBigInt s =
     (case trim s of
        [] \<Rightarrow> Some 0
      | c # cs \<Rightarrow>
          if c = CHR ''+'' then map_option int (digits 10 cs)
          else if c = CHR ''-'' then map_option (\<lambda>n. - int n) (digits 10 cs)
          else if c = CHR ''0'' \<and> cs \<noteq> [] \<and> hd cs \<in> {CHR ''x'', CHR ''X''}
            then map_option int (digits 16 (tl cs))
          else if c = CHR ''0'' \<and> cs \<noteq> [] \<and> hd cs \<in> {CHR ''o'', CHR ''O''}
            then map_option int (digits 8 (tl cs))
          else if c = CHR ''0'' \<and> cs \<noteq> [] \<and> hd cs \<in> {CHR ''b'', CHR ''B''}
            then map_option int (digits 2 (tl cs))
          else map_option int (digits 10 (c # cs)))"

definition BigInt :: "string \<Rightarrow> error + int" where
  "BigInt s =
     (case StringToBigInt s of
        None \<Rightarrow> Inl (Error (''Cannot convert '' @ s @ '' to a BigInt''))
      | Some k \<Rightarrow> Inr k)"

subsection \<open>BigInt division, \<^verbatim>\<open>toString\<close> and \<^verbatim>\<open>Number\<close>\<close>

text \<open>
  \<^verbatim>\<open>a / b\<close> on BigInts truncates towards zero. Both divisions of \<^verbatim>\<open>calculateHHI\<close> are
  behind the guard \<^verbatim>\<open>totalSupply === BigInt(0)\<close>, so the divisor is never zero there.
\<close>

definition bigint_div :: "int \<Rightarrow> int \<Rightarrow> int" where
  "bigint_div a b = sgn a * sgn b * (\<bar>a\<bar> div \<bar>b\<bar>)"

fun digits10 :: "nat \<Rightarrow> string" where
  "digits10 n =
     (if n < 10 then [char_of (48 + n)]
      else digits10 (n div 10) @ [char_of (48 + n mod 10)])"

declare digits10.simps [simp del]

definition toString :: "int \<Rightarrow> string" where
  "toString k = (if k < 0 then CHR ''-'' # digits10 (nat (- k)) else digits10 (nat k))"

text \<open>
  \<^verbatim>\<open>Number(k)\<close> of a BigInt is the double nearest to \<open>k\<close>, which is \<open>k\<close> itself for
  \<open>\<bar>k\<bar> \<le> 2 ^ 53\<close>. The model keeps the integer. Every theorem below that reads a
  converted value is about amounts written as unsigned decimal numbers, where the
  converted values are at most \<open>10 ^ 6\<close>. In the same way \<^verbatim>\<open>Number(q) / 10000\<close> is the
  double nearest to the fraction \<open>q / 10000\<close>; the model keeps the fraction, and for
  \<open>0 \<le> q \<le> 10 ^ 6\<close> two such doubles compare as the fractions do.
\<close>

definition Number :: "int \<Rightarrow> int" where
  "Number k = k"

section \<open>\<^verbatim>\<open>SolanaService\<close>\<close>

definition EXCLUDED_ADDRESSES :: "string set" where
  "EXCLUDED_ADDRESSES =
     {''11111111111111111111111111111111'',
      ''1nc1nerator11111111111111111111111111111111''}"

subsection \<open>\<^verbatim>\<open>getAllTokenHolders\<close>\<close>

text \<open>
  The \<^verbatim>\<open>filter\<close> and \<^verbatim>\<open>map\<close> over \<^verbatim>\<open>response.value\<close>. Reading the owner of a
  malformed element raises inside the \<^verbatim>\<open>try\<close>, which is the result \<open>None\<close>.
\<close>

fun keep :: "raw_account \<Rightarrow> bool" where
  "keep (Parsed ownr amt) = (ownr \<notin> EXCLUDED_ADDRESSES \<and> amt \<noteq> ''0'')"
| "keep Malformed = False"

fun to_holder :: "raw_account \<Rightarrow> holder" where
  "to_holder (Parsed ownr amt) = \<lparr>account = ownr, amount = amt\<rparr>"
| "to_holder Malformed = \<lparr>account = [], amount = []\<rparr>"

definition filter_map :: "raw_account list \<Rightarrow> holder list option" where
  "filter_map accs =
     (if Malformed \<in> set accs then None
      else Some (map to_holder (filter keep accs)))"

text \<open>
  The \<^verbatim>\<open>while (hasMore)\<close> loop. The state is \<^verbatim>\<open>page\<close> and \<^verbatim>\<open>allHolders\<close>, and the
  requests sent so far, which the source does not store but the upstream observes. The
  loop has no bound: when every page is full it never returns, which is the value \<open>None\<close>.
\<close>

partial_function (option) fetch_loop ::
  "upstream \<Rightarrow> nat \<Rightarrow> nat \<Rightarrow> request list \<Rightarrow> holder list \<Rightarrow> (request list \<times> holder list) option"
where
  "fetch_loop rpcRequest pageSize pg sent allHolders =
     (let req = \<lparr>page = pg, limit = pageSize\<rparr> in
      case rpcRequest req of
        Throws \<Rightarrow> Some (sent @ [req], allHolders)
      | Result None \<Rightarrow> Some (sent @ [req], allHolders)
      | Result (Some accs) \<Rightarrow>
          if accs = [] then Some (sent @ [req], allHolders)
          else
            (case filter_map accs of
               None \<Rightarrow> Some (sent @ [req], allHolders)
             | Some holders \<Rightarrow>
                 if length holders < pageSize
                 then Some (sent @ [req], allHolders @ holders)
                 else fetch_loop rpcRequest pageSize (pg + 1) (sent @ [req]) (allHolders @ holders)))"

definition getAllTokenHolders :: "upstream \<Rightarrow> nat \<Rightarrow> holder list option" where
  "getAllTokenHolders rpcRequest pageSize =
     map_option snd (fetch_loop rpcRequest pageSize 0 [] [])"

definition getTokenBalances :: "upstream \<Rightarrow> holder list option" where
  "getTokenBalances rpcRequest = getAllTokenHolders rpcRequest 1000"

subsection \<open>\<^verbatim>\<open>calculateHHI\<close>\<close>

definition emptyResult :: hhi_result where
  "emptyResult =
     \<lparr>hhi = 0, totalSupply = ''0'', holderCount = 0, topHolders = [],
      concentrationLevel = ''No active holders''\<rparr>"

definition getConcentrationLevel :: "int \<Rightarrow> string" where
  "getConcentrationLevel h =
     (if h \<ge> 5000 then ''Extreme concentration (risk of manipulation)''
      else if h \<ge> 2500 then ''High concentration''
      else if h \<ge> 1500 then ''Moderate concentration''
      else ''Decentralized'')"

text \<open>\<^verbatim>\<open>holders.reduce((sum, holder) => sum + BigInt(holder.amount), BigInt(0))\<close>\<close>

fun reduce_sum :: "holder list \<Rightarrow> int \<Rightarrow> error + int" where
  "reduce_sum [] supply = Inr supply"
| "reduce_sum (h # rest) supply =
     (case BigInt (amount h) of
        Inl e \<Rightarrow> Inl e
      | Inr a \<Rightarrow> reduce_sum rest (supply + a))"

text \<open>
  The \<^verbatim>\<open>holders.map\<close> of step 3, with the \<^verbatim>\<open>hhiSum\<close> it updates on the way: the
  result is the mapped array and the final \<^verbatim>\<open>hhiSum\<close>.
\<close>

definition percentage_of :: "int \<Rightarrow> int \<Rightarrow> rat" where
  "percentage_of a supply = of_int (Number (bigint_div (a * 1000000) supply)) / 10000"

definition squared :: "int \<Rightarrow> int \<Rightarrow> int" where
  "squared a supply = bigint_div (a * a * 10000) (supply * supply)"

fun map_holders :: "int \<Rightarrow> holder list \<Rightarrow> int \<Rightarrow> error + (top_holder list \<times> int)" where
  "map_holders supply [] hhiSum = Inr ([], hhiSum)"
| "map_holders supply (h # rest) hhiSum =
     (case BigInt (amount h) of
        Inl e \<Rightarrow> Inl e
      | Inr a \<Rightarrow>
          (case map_holders supply rest (hhiSum + squared a supply) of
             Inl e \<Rightarrow> Inl e
           | Inr (out, s) \<Rightarrow>
               Inr (\<lparr>account = account h, amount = amount h,
                     percentage = percentage_of a supply\<rparr> # out, s)))"

text \<open>
  \<^verbatim>\<open>Array.prototype.sort\<close> is stable, and the comparator \<^verbatim>\<open>b.percentage - a.percentage\<close>
  puts \<open>a\<close> before \<open>b\<close> when \<open>a\<close> has the larger percentage: a stable sort on the
  negated percentage.
\<close>

definition sort_holders :: "top_holder list \<Rightarrow> top_holder list" where
  "sort_holders hs = sort_key (\<lambda>h. - percentage h) hs"

text \<open>The body of the \<^verbatim>\<open>try\<close> after the holders are fetched.\<close>

definition hhi_body :: "holder list \<Rightarrow> error + hhi_result" where
  "hhi_body holders =
     (if length holders = 0 then Inr emptyResult
      else
        case reduce_sum holders 0 of
          Inl e \<Rightarrow> Inl e
        | Inr supply \<Rightarrow>
            if supply = 0 then Inr emptyResult
            else
              (case map_holders supply holders 0 of
                 Inl e \<Rightarrow> Inl e
               | Inr (holdersWithPercentage, hhiSum) \<Rightarrow>
                   let h = Number hhiSum;
                       sortedHolders = sort_holders holdersWithPercentage;
                       level = getConcentrationLevel h
                   in Inr \<lparr>hhi = h, totalSupply = toString supply,
                           holderCount = length holders,
                           topHolders = take 10 sortedHolders,
                           concentrationLevel = level\<rparr>))"

text \<open>The \<^verbatim>\<open>catch\<close>: every error raised in the body is raised again with a prefix.\<close>

definition rethrow :: "error + 'a \<Rightarrow> error + 'a" where
  "rethrow r =
     (case r of
        Inl e \<Rightarrow> Inl (Error (''HHI calculation failed: '' @ message e))
      | Inr v \<Rightarrow> Inr v)"

definition computeHHI :: "holder list \<Rightarrow> error + hhi_result" where
  "computeHHI holders = rethrow (hhi_body holders)"

text \<open>\<open>None\<close> is a fetch loop that never returns.\<close>

definition calculateHHI :: "upstream \<Rightarrow> (error + hhi_result) option" where
  "calculateHHI rpcRequest = map_option computeHHI (getAllTokenHolders rpcRequest 1000)"

section \<open>Notions used in the statements\<close>

subsection \<open>Pages\<close>

text \<open>
  The request for page \<open>i\<close>, and what one iteration of the loop sees in the answer:
  whether the \<^verbatim>\<open>try\<close> block raises (\<open>fails\<close>), whether the answer has no accounts
  (\<open>zero_accounts\<close>), the records left by the filter (\<open>post_filter\<close>), the records the
  iteration appends to \<^verbatim>\<open>allHolders\<close> (\<open>appended\<close>), and whether the iteration ends the
  loop (\<open>last_page\<close>).
\<close>

fun fails :: "rpc_result \<Rightarrow> bool" where
  "fails Throws = True"
| "fails (Result None) = False"
| "fails (Result (Some accs)) = (Malformed \<in> set accs)"

fun zero_accounts :: "rpc_result \<Rightarrow> bool" where
  "zero_accounts Throws = False"
| "zero_accounts (Result None) = True"
| "zero_accounts (Result (Some accs)) = (accs = [])"

fun post_filter :: "rpc_result \<Rightarrow> holder list" where
  "post_filter (Result (Some accs)) = map to_holder (filter keep accs)"
| "post_filter _ = []"

definition appended :: "rpc_result \<Rightarrow> holder list" where
  "appended r = (if fails r then [] else post_filter r)"

definition last_page :: "nat \<Rightarrow> rpc_result \<Rightarrow> bool" where
  "last_page pageSize r = (fails r \<or> zero_accounts r \<or> length (post_filter r) < pageSize)"

definition req :: "nat \<Rightarrow> nat \<Rightarrow> request" where
  "req pageSize i = \<lparr>page = i, limit = pageSize\<rparr>"

text \<open>An upstream that answers page \<open>i\<close> with the \<open>i\<close>-th element of a list, and with an
  empty array after the end of the list.\<close>

definition serve :: "rpc_result list \<Rightarrow> upstream" where
  "serve pages rq = (if page rq < length pages then pages ! page rq else Result (Some []))"

text \<open>The accounts of an answer, and an account with the amount \<^verbatim>\<open>"0"\<close>.\<close>

fun accounts_of :: "rpc_result \<Rightarrow> raw_account list" where
  "accounts_of (Result (Some accs)) = accs"
| "accounts_of _ = []"

fun zero_amount :: "raw_account \<Rightarrow> bool" where
  "zero_amount (Parsed ownr amt) = (amt = ''0'')"
| "zero_amount Malformed = False"

subsection \<open>Amounts\<close>

text \<open>
  An amount as the ledger writes it is an unsigned decimal number: a non-empty run of
  digits, and in canonical form without a leading zero. \<open>value_of\<close> is the number that
  \<^verbatim>\<open>BigInt(holder.amount)\<close> yields where it yields one. \<open>with_percentage\<close> is the object
  that the \<^verbatim>\<open>map\<close> of \<^verbatim>\<open>calculateHHI\<close> returns for one holder. \<open>round4\<close> rounds a
  fraction to four decimal places.
\<close>

definition is_digit :: "char \<Rightarrow> bool" where
  "is_digit c = (48 \<le> (of_char c :: nat) \<and> (of_char c :: nat) \<le> 57)"

definition unsigned_decimal :: "string \<Rightarrow> bool" where
  "unsigned_decimal s = (s \<noteq> [] \<and> list_all is_digit s)"

definition canonical_amount :: "string \<Rightarrow> bool" where
  "canonical_amount s = (unsigned_decimal s \<and> (s = ''0'' \<or> hd s \<noteq> CHR ''0''))"

definition decimal_value :: "string \<Rightarrow> nat \<Rightarrow> nat" where
  "decimal_value s acc = foldl (\<lambda>a c. a * 10 + (of_char c - 48)) acc s"

definition value_of :: "'a holder_scheme \<Rightarrow> int" where
  "value_of h = (case StringToBigInt (amount h) of None \<Rightarrow> 0 | Some v \<Rightarrow> v)"

definition with_percentage :: "int \<Rightarrow> holder \<Rightarrow> top_holder" where
  "with_percentage supply h =
     \<lparr>account = account h, amount = amount h, percentage = percentage_of (value_of h) supply\<rparr>"


section \<open>The fetch loop\<close>

lemma body_cases:
  "(let rq = \<lparr>page = p, limit = ps\<rparr> in
      case u rq of
        Throws \<Rightarrow> Some (sent @ [rq], acc)
      | Result None \<Rightarrow> Some (sent @ [rq], acc)
      | Result (Some accs) \<Rightarrow>
          if accs = [] then Some (sent @ [rq], acc)
          else
            (case filter_map accs of
               None \<Rightarrow> Some (sent @ [rq], acc)
             | Some holders \<Rightarrow>
                 if length holders < ps
                 then Some (sent @ [rq], acc @ holders)
                 else f u ps (p + 1) (sent @ [rq]) (acc @ holders)))
   = (if last_page ps (u (req ps p))
      then Some (sent @ [req ps p], acc @ appended (u (req ps p)))
      else f u ps (Suc p) (sent @ [req ps p]) (acc @ appended (u (req ps p))))"
proof (cases "u (req ps p)")
  case Throws
  then show ?thesis
    by (simp add: req_def appended_def last_page_def Let_def)
next
  case (Result v)
  show ?thesis
  proof (cases v)
    case None
    with Result show ?thesis
      by (simp add: req_def appended_def last_page_def Let_def)
  next
    case (Some accs)
    with Result show ?thesis
      by (simp add: req_def appended_def last_page_def filter_map_def Let_def)
  qed
qed

lemma fetch_loop_unfold:
  "fetch_loop u ps p sent acc =
     (if last_page ps (u (req ps p))
      then Some (sent @ [req ps p], acc @ appended (u (req ps p)))
      else fetch_loop u ps (Suc p) (sent @ [req ps p]) (acc @ appended (u (req ps p))))"
  by (subst fetch_loop.simps) (rule body_cases)

lemma fetch_loop_reaches:
  assumes "\<forall>i<k. \<not> last_page ps (u (req ps (p + i)))" and "last_page ps (u (req ps (p + k)))"
  shows "fetch_loop u ps p sent acc =
         Some (sent @ map (req ps) [p..<p + Suc k],
               acc @ concat (map (\<lambda>i. appended (u (req ps i))) [p..<p + Suc k]))"
  using assms
proof (induction k arbitrary: p sent acc)
  case 0
  then show ?case by (subst fetch_loop_unfold) simp
next
  case (Suc k)
  from Suc.prems(1) have first: "\<not> last_page ps (u (req ps p))" by force
  have rest: "\<forall>i<k. \<not> last_page ps (u (req ps (Suc p + i)))"
    using Suc.prems(1) by (metis Suc_less_eq add_Suc_shift)
  have stop: "last_page ps (u (req ps (Suc p + k)))"
    using Suc.prems(2) by simp
  have "fetch_loop u ps p sent acc =
        fetch_loop u ps (Suc p) (sent @ [req ps p]) (acc @ appended (u (req ps p)))"
    using first by (subst fetch_loop_unfold) simp
  also have "\<dots> = Some ((sent @ [req ps p]) @ map (req ps) [Suc p..<Suc p + Suc k],
       (acc @ appended (u (req ps p))) @ concat (map (\<lambda>i. appended (u (req ps i))) [Suc p..<Suc p + Suc k]))"
    using rest stop by (rule Suc.IH)
  also have "\<dots> = Some (sent @ map (req ps) [p..<p + Suc (Suc k)],
               acc @ concat (map (\<lambda>i. appended (u (req ps i))) [p..<p + Suc (Suc k)]))"
    by (simp add: upt_conv_Cons del: upt_Suc)
  finally show ?case .
qed

lemma fetch_loop_Some_stops:
  assumes "fetch_loop u ps p sent acc = Some y"
  shows "\<exists>i. last_page ps (u (req ps (p + i)))"
proof (rule fetch_loop.raw_induct
    [where P = "\<lambda>u ps p sent acc y. \<exists>i. last_page ps (u (req ps (p + i)))", OF _ assms])
  fix fl :: "upstream \<Rightarrow> nat \<Rightarrow> nat \<Rightarrow> request list \<Rightarrow> holder list \<Rightarrow> (request list \<times> holder list) option"
  fix u ps p sent acc y
  assume IH: "\<And>u ps p sent acc y. fl u ps p sent acc = Some y \<Longrightarrow> \<exists>i. last_page ps (u (req ps (p + i)))"
  assume body: "(let req = \<lparr>page = p, limit = ps\<rparr> in
      case u req of
        Throws \<Rightarrow> Some (sent @ [req], acc)
      | Result None \<Rightarrow> Some (sent @ [req], acc)
      | Result (Some accs) \<Rightarrow>
          if accs = [] then Some (sent @ [req], acc)
          else
            (case filter_map accs of
               None \<Rightarrow> Some (sent @ [req], acc)
             | Some holders \<Rightarrow>
                 if length holders < ps
                 then Some (sent @ [req], acc @ holders)
                 else fl u ps (p + 1) (sent @ [req]) (acc @ holders))) = Some y"
  show "\<exists>i. last_page ps (u (req ps (p + i)))"
  proof (cases "last_page ps (u (req ps p))")
    case True
    then have "last_page ps (u (req ps (p + 0)))" by simp
    then show ?thesis by blast
  next
    case False
    with body have "fl u ps (Suc p) (sent @ [req ps p]) (acc @ appended (u (req ps p))) = Some y"
      by (simp only: body_cases if_False)
    then obtain i where "last_page ps (u (req ps (Suc p + i)))"
      using IH by blast
    then have "last_page ps (u (req ps (p + Suc i)))" by simp
    then show ?thesis by blast
  qed
qed

lemma fetch_loop_diverges:
  assumes "\<forall>i. \<not> last_page ps (u (req ps (p + i)))"
  shows "fetch_loop u ps p sent acc = None"
  using assms fetch_loop_Some_stops [of u ps p sent acc] by (cases "fetch_loop u ps p sent acc") auto

section \<open>Parsing amounts\<close>

lemma is_digit_value: "is_digit c \<Longrightarrow> digit_value c = Some (of_char c - 48)"
  by (simp add: is_digit_def digit_value_def Let_def)

lemma is_digit_not_space: "is_digit c \<Longrightarrow> \<not> is_white_space c"
  by (auto simp add: is_digit_def is_white_space_def)

lemma parse_digits_decimal:
  "list_all is_digit s \<Longrightarrow> parse_digits 10 s acc = Some (decimal_value s acc)"
proof (induction s arbitrary: acc)
  case Nil
  then show ?case by (simp add: decimal_value_def)
next
  case (Cons c cs)
  then have c: "is_digit c" and cs: "list_all is_digit cs" by simp_all
  have "of_char c - 48 < (10::nat)" using c by (auto simp add: is_digit_def)
  with c Cons.IH [OF cs] show ?case
    by (simp add: is_digit_value decimal_value_def)
qed

lemma trim_unsigned: "unsigned_decimal s \<Longrightarrow> trim s = s"
proof -
  assume a: "unsigned_decimal s"
  then obtain c cs where s: "s = c # cs" by (cases s) (auto simp: unsigned_decimal_def)
  from a s have "is_digit c" by (simp add: unsigned_decimal_def)
  then have 1: "dropWhile is_white_space s = s" using s by (simp add: is_digit_not_space)
  from a have "rev s \<noteq> []" by (simp add: unsigned_decimal_def)
  then obtain d ds where r: "rev s = d # ds" by (cases "rev s") auto
  then have "d \<in> set s" by (metis list.set_intros(1) set_rev)
  with a have "is_digit d" by (simp add: unsigned_decimal_def list_all_iff)
  then have 2: "dropWhile is_white_space (rev s) = rev s" using r by (simp add: is_digit_not_space)
  show ?thesis by (simp add: trim_def 1 2)
qed

lemma StringToBigInt_unsigned:
  assumes "unsigned_decimal s"
  shows "StringToBigInt s = Some (int (decimal_value s 0))"
proof -
  from assms obtain c cs where s: "s = c # cs" by (cases s) (auto simp: unsigned_decimal_def)
  from assms s have c: "is_digit c" and cs: "list_all is_digit cs"
    by (simp_all add: unsigned_decimal_def)
  have plus: "c \<noteq> CHR ''+''" and minus: "c \<noteq> CHR ''-''"
    using c by (auto simp: is_digit_def)
  have hd: "cs \<noteq> [] \<Longrightarrow> is_digit (hd cs)" using cs by (cases cs) simp_all
  have nx: "cs \<noteq> [] \<Longrightarrow> hd cs \<notin> {CHR ''x'', CHR ''X'', CHR ''o'', CHR ''O'', CHR ''b'', CHR ''B''}"
    using hd by (auto simp: is_digit_def)
  have "digits 10 (c # cs) = Some (decimal_value s 0)"
    using assms s by (simp add: digits_def parse_digits_decimal unsigned_decimal_def del: parse_digits.simps)
  moreover have "trim (c # cs) = c # cs"
    using trim_unsigned [OF assms] s by simp
  ultimately show ?thesis
    using plus minus nx by (auto simp add: StringToBigInt_def s)
qed

lemma decimal_value_mono: "acc \<le> decimal_value s acc"
proof (induction s arbitrary: acc)
  case Nil
  then show ?case by (simp add: decimal_value_def)
next
  case (Cons c cs)
  have "acc \<le> acc * 10 + (of_char c - 48)" by simp
  also have "\<dots> \<le> decimal_value cs (acc * 10 + (of_char c - 48))" by (rule Cons.IH)
  finally show ?case by (simp add: decimal_value_def)
qed

lemma decimal_value_positive:
  assumes "canonical_amount s" and "s \<noteq> ''0''"
  shows "0 < decimal_value s 0"
proof -
  from assms obtain c cs where s: "s = c # cs" by (cases s) (auto simp: canonical_amount_def unsigned_decimal_def)
  from assms s have c: "is_digit c" and nz: "c \<noteq> CHR ''0''"
    by (auto simp add: canonical_amount_def unsigned_decimal_def)
  have "of_char c \<noteq> (48::nat)"
  proof
    assume "of_char c = (48::nat)"
    moreover have "of_char CHR ''0'' = (48::nat)" by simp
    ultimately have "(of_char c :: nat) = of_char CHR ''0''" by simp
    then have "c = CHR ''0''" by (simp only: of_char_eq_iff)
    with nz show False by simp
  qed
  with c have "0 < (of_char c :: nat) - 48" by (simp add: is_digit_def)
  also have "\<dots> \<le> decimal_value cs (of_char c - 48)" by (rule decimal_value_mono)
  finally show ?thesis by (simp add: s decimal_value_def)
qed

section \<open>Sums of amounts and of squared terms\<close>

lemma bigint_div_nonneg: "0 \<le> a \<Longrightarrow> 0 < b \<Longrightarrow> bigint_div a b = a div b"
  by (cases "a = 0") (simp_all add: bigint_div_def)

lemma squared_floor: "supply \<noteq> 0 \<Longrightarrow> squared a supply = (a * a * 10000) div (supply * supply)"
proof -
  assume "supply \<noteq> 0"
  then have "0 < supply * supply" by (auto simp add: zero_less_mult_iff)
  moreover have "0 \<le> a * a * 10000" by simp
  ultimately show ?thesis unfolding squared_def by (rule bigint_div_nonneg [rotated])
qed

lemma BigInt_value: "StringToBigInt (amount h) \<noteq> None \<Longrightarrow> BigInt (amount h) = Inr (value_of h)"
  by (auto simp add: BigInt_def value_of_def)

lemma reduce_sum_parsed:
  "\<forall>h\<in>set hs. StringToBigInt (amount h) \<noteq> None \<Longrightarrow>
   reduce_sum hs acc = Inr (acc + sum_list (map value_of hs))"
  by (induction hs arbitrary: acc) (simp_all add: BigInt_value)

lemma map_holders_parsed:
  "\<forall>h\<in>set hs. StringToBigInt (amount h) \<noteq> None \<Longrightarrow>
   map_holders supply hs s =
     Inr (map (with_percentage supply) hs, s + sum_list (map (\<lambda>h. squared (value_of h) supply) hs))"
  by (induction hs arbitrary: s) (simp_all add: BigInt_value with_percentage_def)

lemma hhi_body_result:
  assumes "hs \<noteq> []" and "\<forall>h\<in>set hs. StringToBigInt (amount h) \<noteq> None"
    and "sum_list (map value_of hs) \<noteq> 0"
  shows "hhi_body hs =
     Inr \<lparr>hhi = Number (sum_list (map (\<lambda>h. squared (value_of h) (sum_list (map value_of hs))) hs)),
          totalSupply = toString (sum_list (map value_of hs)),
          holderCount = length hs,
          topHolders = take 10 (sort_holders (map (with_percentage (sum_list (map value_of hs))) hs)),
          concentrationLevel = getConcentrationLevel
            (Number (sum_list (map (\<lambda>h. squared (value_of h) (sum_list (map value_of hs))) hs)))\<rparr>"
  using assms by (simp add: hhi_body_def reduce_sum_parsed map_holders_parsed Let_def)

lemma sum_div_mult_le:
  fixes d :: int
  assumes "0 < d"
  shows "sum_list (map (\<lambda>x. f x div d) xs) * d \<le> sum_list (map f xs)"
proof (induction xs)
  case Nil
  then show ?case by simp
next
  case (Cons x xs)
  have "f x div d * d = f x - f x mod d" by (simp add: minus_mod_eq_div_mult)
  moreover have "0 \<le> f x mod d" using assms by simp
  ultimately have "f x div d * d \<le> f x" by simp
  with Cons show ?case by (simp add: distrib_right)
qed

lemma sum_squares_le:
  fixes vs :: "int list"
  assumes "\<forall>v\<in>set vs. 0 \<le> v"
  shows "sum_list (map (\<lambda>v. v * v) vs) \<le> sum_list vs * sum_list vs"
  using assms
proof (induction vs)
  case Nil
  then show ?case by simp
next
  case (Cons v vs)
  then have v: "0 \<le> v" and r: "0 \<le> sum_list vs" by (simp_all add: sum_list_nonneg)
  then have "0 \<le> v * sum_list vs" by simp
  moreover have "sum_list (map (\<lambda>v. v * v) vs) \<le> sum_list vs * sum_list vs"
    using Cons by simp
  ultimately show ?case by (simp add: algebra_simps)
qed

lemma sum_squares_eq_member:
  fixes vs :: "int list"
  assumes "\<forall>v\<in>set vs. 0 \<le> v" and "0 < sum_list vs"
    and "sum_list vs * sum_list vs \<le> sum_list (map (\<lambda>v. v * v) vs)"
  shows "sum_list vs \<in> set vs"
  using assms
proof (induction vs)
  case Nil
  then show ?case by simp
next
  case (Cons v vs)
  then have v: "0 \<le> v" and r: "0 \<le> sum_list vs" and nn: "\<forall>v\<in>set vs. 0 \<le> v"
    by (simp_all add: sum_list_nonneg)
  have le: "sum_list (map (\<lambda>v. v * v) vs) \<le> sum_list vs * sum_list vs"
    using nn by (rule sum_squares_le)
  from Cons.prems(3) have
    "2 * (v * sum_list vs) + sum_list vs * sum_list vs \<le> sum_list (map (\<lambda>v. v * v) vs)"
    by (simp add: algebra_simps)
  with le have "v * sum_list vs \<le> 0" by simp
  moreover have "0 \<le> v * sum_list vs" using v r by simp
  ultimately have z: "v * sum_list vs = 0" by simp
  show ?case
  proof (cases "sum_list vs = 0")
    case True
    then show ?thesis by simp
  next
    case False
    with z have v0: "v = 0" by simp
    with Cons.prems have "sum_list vs \<in> set vs"
      using Cons.IH nn False r by simp
    with v0 show ?thesis by simp
  qed
qed

lemma member_le_sum_int:
  fixes f :: "'a \<Rightarrow> int"
  assumes "\<forall>x\<in>set xs. 0 \<le> f x" and "x \<in> set xs"
  shows "f x \<le> sum_list (map f xs)"
  using assms
proof (induction xs)
  case Nil
  then show ?case by simp
next
  case (Cons y ys)
  have "0 \<le> sum_list (map f ys)"
    by (rule sum_list_nonneg) (use Cons.prems in auto)
  with Cons show ?case by auto
qed

lemma count_owner_le:
  fixes vs :: "int list"
  assumes "\<forall>v\<in>set vs. 0 \<le> v"
  shows "t * int (length (filter (\<lambda>v. v = t) vs)) \<le> sum_list vs"
  using assms by (induction vs) (auto simp add: algebra_simps)

lemma positive_sum_length:
  fixes vs :: "int list"
  assumes "\<forall>v\<in>set vs. 0 < v" and "x \<in> set vs"
  shows "x + int (length vs) - 1 \<le> sum_list vs"
  using assms
proof (induction vs)
  case Nil
  then show ?case by simp
next
  case (Cons v vs)
  have len: "int (length vs) \<le> sum_list vs"
    using Cons.prems(1) by (induction vs) (auto simp add: add_mono)
  show ?case
  proof (cases "x = v")
    case True
    with len show ?thesis by simp
  next
    case False
    with Cons have "x + int (length vs) - 1 \<le> sum_list vs" by simp
    moreover have "1 \<le> v" using Cons.prems(1) by simp
    ultimately show ?thesis by simp
  qed
qed

section \<open>The index\<close>

lemma reduce_sum_Inr:
  "reduce_sum hs acc = Inr t \<Longrightarrow>
   (\<forall>h\<in>set hs. StringToBigInt (amount h) \<noteq> None) \<and> t = acc + sum_list (map value_of hs)"
proof (induction hs arbitrary: acc)
  case Nil
  then show ?case by simp
next
  case (Cons h hs)
  show ?case
  proof (cases "StringToBigInt (amount h)")
    case None
    with Cons.prems show ?thesis by (simp add: BigInt_def)
  next
    case (Some v)
    with Cons.prems have "reduce_sum hs (acc + v) = Inr t" by (simp add: BigInt_def)
    from Cons.IH [OF this] Some show ?thesis by (simp add: value_of_def)
  qed
qed

lemma computeHHI_result:
  assumes "hs \<noteq> []" and "\<forall>h\<in>set hs. StringToBigInt (amount h) \<noteq> None"
    and "sum_list (map value_of hs) \<noteq> 0"
  shows "computeHHI hs =
     Inr \<lparr>hhi = Number (sum_list (map (\<lambda>h. squared (value_of h) (sum_list (map value_of hs))) hs)),
          totalSupply = toString (sum_list (map value_of hs)),
          holderCount = length hs,
          topHolders = take 10 (sort_holders (map (with_percentage (sum_list (map value_of hs))) hs)),
          concentrationLevel = getConcentrationLevel
            (Number (sum_list (map (\<lambda>h. squared (value_of h) (sum_list (map value_of hs))) hs)))\<rparr>"
  by (simp add: computeHHI_def rethrow_def hhi_body_result [OF assms])

lemma StringToBigInt_25: "StringToBigInt ''25'' = Some 25"
  by (simp add: StringToBigInt_def trim_def is_white_space_def digits_def digit_value_def)

lemma toString_100: "toString 100 = ''100''"
  by (simp add: toString_def digits10.simps char_of_def bit_0)

lemma squared_25_100: "squared 25 100 = 625"
  by (simp add: squared_def bigint_div_def)

lemma percentage_of_25_100: "percentage_of 25 100 = 25"
  by (simp add: percentage_of_def bigint_div_def Number_def)

lemma four_equal_holders:
  "computeHHI
     [\<lparr>account = x, amount = ''25''\<rparr>, \<lparr>account = y, amount = ''25''\<rparr>,
      \<lparr>account = z, amount = ''25''\<rparr>, \<lparr>account = w, amount = ''25''\<rparr>] =
   Inr \<lparr>hhi = 2500, totalSupply = ''100'', holderCount = 4,
        topHolders =
          [\<lparr>account = x, amount = ''25'', percentage = 25\<rparr>,
           \<lparr>account = y, amount = ''25'', percentage = 25\<rparr>,
           \<lparr>account = z, amount = ''25'', percentage = 25\<rparr>,
           \<lparr>account = w, amount = ''25'', percentage = 25\<rparr>],
        concentrationLevel = ''High concentration''\<rparr>"
  by (simp add: computeHHI_def rethrow_def hhi_body_def BigInt_def StringToBigInt_25 toString_100
      squared_25_100 percentage_of_25_100 Number_def sort_holders_def getConcentrationLevel_def)

lemma value_of_unsigned:
  "unsigned_decimal (amount h) \<Longrightarrow>
   StringToBigInt (amount h) = Some (value_of h) \<and> 0 \<le> value_of h"
  by (simp add: value_of_def StringToBigInt_unsigned)

lemma squared_sum_bounds:
  fixes T :: int
  assumes nonneg: "\<forall>h\<in>set hs. 0 \<le> f h" and T: "T = sum_list (map f hs)" and pos: "0 < T"
  shows "0 \<le> (\<Sum>h\<leftarrow>hs. (f h * f h * 10000) div (T * T))"
    and "(\<Sum>h\<leftarrow>hs. (f h * f h * 10000) div (T * T)) \<le> 10000"
    and "(\<Sum>h\<leftarrow>hs. (f h * f h * 10000) div (T * T)) = 10000 \<longleftrightarrow> (\<exists>h\<in>set hs. f h = T)"
proof -
  let ?H = "\<Sum>h\<leftarrow>hs. (f h * f h * 10000) div (T * T)"
  have d: "0 < T * T" using pos by simp
  have vs: "\<forall>v\<in>set (map f hs). 0 \<le> v" using nonneg by simp
  have sq: "(\<Sum>h\<leftarrow>hs. f h * f h) \<le> T * T"
    using sum_squares_le [OF vs] by (simp add: T o_def)
  have terms: "\<forall>h\<in>set hs. 0 \<le> (f h * f h * 10000) div (T * T)"
    using d by (simp add: pos_imp_zdiv_nonneg_iff)
  show lower: "0 \<le> ?H"
    by (rule sum_list_nonneg) (use terms in auto)
  have "?H * (T * T) \<le> (\<Sum>h\<leftarrow>hs. f h * f h * 10000)"
    using d by (rule sum_div_mult_le)
  also have "\<dots> = (\<Sum>h\<leftarrow>hs. f h * f h) * 10000"
    by (simp add: sum_list_mult_const)
  finally have below: "?H * (T * T) \<le> (\<Sum>h\<leftarrow>hs. f h * f h) * 10000" .
  also have "\<dots> \<le> (T * T) * 10000" using sq by simp
  finally have "?H * (T * T) \<le> 10000 * (T * T)" by (simp add: mult.commute)
  with d show upper: "?H \<le> 10000" by (simp add: mult_le_cancel_right)
  show "?H = 10000 \<longleftrightarrow> (\<exists>h\<in>set hs. f h = T)"
  proof
    assume "?H = 10000"
    with below have "10000 * (T * T) \<le> (\<Sum>h\<leftarrow>hs. f h * f h) * 10000" by simp
    then have "T * T \<le> (\<Sum>h\<leftarrow>hs. f h * f h)" by simp
    then have "sum_list (map f hs) * sum_list (map f hs) \<le> (\<Sum>v\<leftarrow>map f hs. v * v)"
      by (simp add: T o_def)
    from sum_squares_eq_member [OF vs _ this] pos have "T \<in> set (map f hs)"
      by (simp add: T)
    then show "\<exists>h\<in>set hs. f h = T" by auto
  next
    assume "\<exists>h\<in>set hs. f h = T"
    then obtain h where h: "h \<in> set hs" "f h = T" by blast
    have "(f h * f h * 10000) div (T * T) \<le> ?H"
      using terms h(1) by (rule member_le_sum_int)
    moreover have "(f h * f h * 10000) div (T * T) = 10000"
      using pos by (simp add: h(2))
    ultimately show "?H = 10000" using upper by simp
  qed
qed

text \<open>
  C1. Take a list of holders whose amounts are unsigned decimal numbers and whose total
  \<open>T\<close>, as \<^verbatim>\<open>calculateHHI\<close> computes it, is positive. The squared term of a holder with
  amount \<open>a\<close> is the integer quotient of \<open>a * a * 10000\<close> by \<open>T * T\<close>, the \<^verbatim>\<open>hhiSum\<close> after
  the \<^verbatim>\<open>map\<close> is the sum of the squared terms of all the holders (not of the ten that are
  displayed), and \<^verbatim>\<open>hhi\<close> is that sum: it lies between 0 and 10000, where \<^verbatim>\<open>Number\<close>, the
  only conversion, is exact. Four holders of amount 25 give squared terms of 625 and the
  index 2500.
\<close>

theorem calculateHHI_sums_squared_terms:
  "((\<forall>h\<in>set hs. unsigned_decimal (amount h)) \<and> reduce_sum hs 0 = Inr T \<and> 0 < T \<longrightarrow>
      (\<exists>r. computeHHI hs = Inr r \<and>
           hhi r = (\<Sum>h\<leftarrow>hs. (value_of h * value_of h * 10000) div (T * T)) \<and>
           hhi r = Number (\<Sum>h\<leftarrow>hs. (value_of h * value_of h * 10000) div (T * T)) \<and>
           0 \<le> (\<Sum>h\<leftarrow>hs. (value_of h * value_of h * 10000) div (T * T)) \<and>
           (\<Sum>h\<leftarrow>hs. (value_of h * value_of h * 10000) div (T * T)) \<le> 10000 \<and>
           map_holders T hs 0 =
             Inr (map (with_percentage T) hs,
                  \<Sum>h\<leftarrow>hs. (value_of h * value_of h * 10000) div (T * T)) \<and>
           (\<forall>a. squared a T = (a * a * 10000) div (T * T)))) \<and>
   squared 25 100 = 625 \<and>
   (\<exists>r. computeHHI
           [\<lparr>account = x, amount = ''25''\<rparr>, \<lparr>account = y, amount = ''25''\<rparr>,
            \<lparr>account = z, amount = ''25''\<rparr>, \<lparr>account = w, amount = ''25''\<rparr>] = Inr r \<and>
        hhi r = 2500 \<and> totalSupply r = ''100'')"
proof (intro conjI impI)
  assume a: "(\<forall>h\<in>set hs. unsigned_decimal (amount h)) \<and> reduce_sum hs 0 = Inr T \<and> 0 < T"
  from a reduce_sum_Inr [of hs 0 T]
  have parsed: "\<forall>h\<in>set hs. StringToBigInt (amount h) \<noteq> None"
    and T: "T = sum_list (map value_of hs)" by simp_all
  from a T have ne: "hs \<noteq> []" by auto
  from a have T0: "T \<noteq> 0" and pos: "0 < T" by simp_all
  have nonneg: "\<forall>h\<in>set hs. 0 \<le> value_of h"
    using a by (simp add: value_of_unsigned)
  have sq: "squared a T = (a * a * 10000) div (T * T)" for a
    using T0 by (rule squared_floor)
  note b = squared_sum_bounds [OF nonneg T pos]
  have "map_holders T hs 0 = Inr (map (with_percentage T) hs, \<Sum>h\<leftarrow>hs. squared (value_of h) T)"
    using parsed by (simp add: map_holders_parsed)
  moreover have "computeHHI hs = Inr \<lparr>hhi = Number (\<Sum>h\<leftarrow>hs. squared (value_of h) T),
          totalSupply = toString T,
          holderCount = length hs,
          topHolders = take 10 (sort_holders (map (with_percentage T) hs)),
          concentrationLevel = getConcentrationLevel (Number (\<Sum>h\<leftarrow>hs. squared (value_of h) T))\<rparr>"
    using computeHHI_result [OF ne parsed] T0 unfolding T by simp
  ultimately show "\<exists>r. computeHHI hs = Inr r \<and>
           hhi r = (\<Sum>h\<leftarrow>hs. (value_of h * value_of h * 10000) div (T * T)) \<and>
           hhi r = Number (\<Sum>h\<leftarrow>hs. (value_of h * value_of h * 10000) div (T * T)) \<and>
           0 \<le> (\<Sum>h\<leftarrow>hs. (value_of h * value_of h * 10000) div (T * T)) \<and>
           (\<Sum>h\<leftarrow>hs. (value_of h * value_of h * 10000) div (T * T)) \<le> 10000 \<and>
           map_holders T hs 0 =
             Inr (map (with_percentage T) hs,
                  \<Sum>h\<leftarrow>hs. (value_of h * value_of h * 10000) div (T * T)) \<and>
           (\<forall>a. squared a T = (a * a * 10000) div (T * T))"
    using b(1) b(2) by (simp add: sq Number_def)
next
  show "squared 25 100 = 625" by (rule squared_25_100)
next
  show "\<exists>r. computeHHI
           [\<lparr>account = x, amount = ''25''\<rparr>, \<lparr>account = y, amount = ''25''\<rparr>,
            \<lparr>account = z, amount = ''25''\<rparr>, \<lparr>account = w, amount = ''25''\<rparr>] = Inr r \<and>
        hhi r = 2500 \<and> totalSupply r = ''100''"
    by (simp add: four_equal_holders)
qed

theorem calculateHHI_sums_squared_terms_witness:
  "list_all (\<lambda>h. unsigned_decimal (amount h))
     [\<lparr>account = ''X'', amount = ''25''\<rparr>, \<lparr>account = ''Y'', amount = ''25''\<rparr>,
      \<lparr>account = ''Z'', amount = ''25''\<rparr>, \<lparr>account = ''W'', amount = ''25''\<rparr>] \<and>
   reduce_sum [\<lparr>account = ''X'', amount = ''25''\<rparr>, \<lparr>account = ''Y'', amount = ''25''\<rparr>,
               \<lparr>account = ''Z'', amount = ''25''\<rparr>, \<lparr>account = ''W'', amount = ''25''\<rparr>] 0 = Inr 100 \<and>
   (0::int) < 100 \<and>
   (\<exists>r. computeHHI [\<lparr>account = ''X'', amount = ''25''\<rparr>, \<lparr>account = ''Y'', amount = ''25''\<rparr>,
               \<lparr>account = ''Z'', amount = ''25''\<rparr>, \<lparr>account = ''W'', amount = ''25''\<rparr>] = Inr r \<and>
        hhi r = 625 + 625 + 625 + 625)"
proof -
  let ?hs = "[\<lparr>account = ''X'', amount = ''25''\<rparr>, \<lparr>account = ''Y'', amount = ''25''\<rparr>,
               \<lparr>account = ''Z'', amount = ''25''\<rparr>, \<lparr>account = ''W'', amount = ''25''\<rparr>]"
  have u: "\<forall>h\<in>set ?hs. unsigned_decimal (amount h)"
    by (simp add: unsigned_decimal_def is_digit_def)
  have h: "reduce_sum ?hs 0 = Inr 100 \<and> (0::int) < 100"
    by (simp add: BigInt_def StringToBigInt_25)
  with u calculateHHI_sums_squared_terms [of ?hs 100]
  obtain r where "computeHHI ?hs = Inr r"
    and "hhi r = (\<Sum>h\<leftarrow>?hs. (value_of h * value_of h * 10000) div (100 * 100))"
    by blast
  then have "computeHHI ?hs = Inr r \<and> hhi r = 625 + 625 + 625 + 625"
    by (simp add: value_of_def StringToBigInt_25)
  moreover have "list_all (\<lambda>h. unsigned_decimal (amount h)) ?hs"
    using u by (simp only: list_all_iff)
  ultimately show ?thesis using h by blast
qed

section \<open>Pagination\<close>

lemma last_page_appended:
  "0 < ps \<Longrightarrow> last_page ps r = (zero_accounts r \<or> length (appended r) < ps)"
  by (simp add: last_page_def appended_def)

lemma fetch_loop_from_start:
  assumes "\<forall>i<k. \<not> last_page ps (u (req ps i))" and "last_page ps (u (req ps k))"
  shows "fetch_loop u ps 0 [] [] =
         Some (map (req ps) [0..<Suc k], concat (map (\<lambda>i. appended (u (req ps i))) [0..<Suc k]))"
  using fetch_loop_reaches [of k ps u 0 "[]" "[]"] assms by simp

lemma fetch_loop_first_last_page:
  assumes "fetch_loop u ps 0 [] [] = Some y"
  shows "\<exists>k. (\<forall>i<k. \<not> last_page ps (u (req ps i))) \<and> last_page ps (u (req ps k)) \<and>
             y = (map (req ps) [0..<Suc k], concat (map (\<lambda>i. appended (u (req ps i))) [0..<Suc k]))"
proof -
  from fetch_loop_Some_stops [OF assms] have "\<exists>i. last_page ps (u (req ps i))" by simp
  then obtain k where k: "last_page ps (u (req ps k))"
    and least: "\<forall>i<k. \<not> last_page ps (u (req ps i))"
    using exists_least_iff [of "\<lambda>i. last_page ps (u (req ps i))"] by auto
  from fetch_loop_from_start [OF least k] assms
  have "y = (map (req ps) [0..<Suc k], concat (map (\<lambda>i. appended (u (req ps i))) [0..<Suc k]))"
    by simp
  with k least show ?thesis by blast
qed

lemma serve_page: "i < length pages \<Longrightarrow> serve pages (req ps i) = pages ! i"
  by (simp add: serve_def req_def)

text \<open>
  C5. The loop sends the requests for the pages \<open>0, 1, 2, \<dots>\<close> in this order, each with
  the same limit, the page size, which the public entry point sets to 1000. For a positive
  page size it returns exactly when some page has no accounts or yields fewer records
  after the filter than the page size (a page whose request or decoding raises yields
  none); it then has stopped at the first such page \<open>k\<close>, after the requests for the pages
  \<open>0, \<dots>, k\<close>, and returns the records of these pages in order. When there is no such page
  it does not return. A first page of 1000 records after the filter and a second page
  without accounts make two requests and return the 1000 records.
\<close>

theorem pagination_stops_at_first_short_page:
  assumes "0 < ps"
  shows
    "(fetch_loop u ps 0 [] [] = Some (sent, hs) \<longleftrightarrow>
        (\<exists>k. (\<forall>i<k. \<not> zero_accounts (u (req ps i)) \<and> ps \<le> length (appended (u (req ps i)))) \<and>
             (zero_accounts (u (req ps k)) \<or> length (appended (u (req ps k))) < ps) \<and>
             sent = map (\<lambda>i. \<lparr>page = i, limit = ps\<rparr>) [0..<Suc k] \<and>
             hs = concat (map (\<lambda>i. appended (u (req ps i))) [0..<Suc k]))) \<and>
     (fetch_loop u ps 0 [] [] = None \<longleftrightarrow>
        (\<forall>i. \<not> zero_accounts (u (req ps i)) \<and> ps \<le> length (appended (u (req ps i))))) \<and>
     (\<forall>accs. Malformed \<notin> set accs \<longrightarrow>
        appended (Result (Some accs)) = map to_holder (filter keep accs)) \<and>
     getTokenBalances u = map_option snd (fetch_loop u 1000 0 [] []) \<and>
     (ps = 1000 \<and> length (appended (u (req 1000 0))) = 1000 \<and> zero_accounts (u (req 1000 1)) \<longrightarrow>
        fetch_loop u 1000 0 [] [] =
          Some ([\<lparr>page = 0, limit = 1000\<rparr>, \<lparr>page = 1, limit = 1000\<rparr>], appended (u (req 1000 0))) \<and>
        getTokenBalances u = Some (appended (u (req 1000 0))))"
proof -
  have lp: "last_page ps r = (zero_accounts r \<or> length (appended r) < ps)" for r
    using assms by (rule last_page_appended)
  have rq: "map (req ps) xs = map (\<lambda>i. \<lparr>page = i, limit = ps\<rparr>) xs" for xs
    by (simp add: req_def)
  have 1: "fetch_loop u ps 0 [] [] = Some (sent, hs) \<longleftrightarrow>
        (\<exists>k. (\<forall>i<k. \<not> zero_accounts (u (req ps i)) \<and> ps \<le> length (appended (u (req ps i)))) \<and>
             (zero_accounts (u (req ps k)) \<or> length (appended (u (req ps k))) < ps) \<and>
             sent = map (\<lambda>i. \<lparr>page = i, limit = ps\<rparr>) [0..<Suc k] \<and>
             hs = concat (map (\<lambda>i. appended (u (req ps i))) [0..<Suc k]))"
    (is "?L \<longleftrightarrow> ?R")
  proof
    assume ?L
    from fetch_loop_first_last_page [OF this] obtain k where
      "\<forall>i<k. \<not> last_page ps (u (req ps i))" "last_page ps (u (req ps k))"
      "(sent, hs) = (map (req ps) [0..<Suc k], concat (map (\<lambda>i. appended (u (req ps i))) [0..<Suc k]))"
      by blast
    then have "(\<forall>i<k. \<not> zero_accounts (u (req ps i)) \<and> ps \<le> length (appended (u (req ps i)))) \<and>
             (zero_accounts (u (req ps k)) \<or> length (appended (u (req ps k))) < ps) \<and>
             sent = map (\<lambda>i. \<lparr>page = i, limit = ps\<rparr>) [0..<Suc k] \<and>
             hs = concat (map (\<lambda>i. appended (u (req ps i))) [0..<Suc k])"
      unfolding lp rq by (simp add: not_less)
    then show ?R by blast
  next
    assume ?R
    then obtain k where
      a: "\<forall>i<k. \<not> zero_accounts (u (req ps i)) \<and> ps \<le> length (appended (u (req ps i)))"
      and b: "zero_accounts (u (req ps k)) \<or> length (appended (u (req ps k))) < ps"
      and c: "sent = map (\<lambda>i. \<lparr>page = i, limit = ps\<rparr>) [0..<Suc k]"
      and d: "hs = concat (map (\<lambda>i. appended (u (req ps i))) [0..<Suc k])"
      by blast
    from a have a': "\<forall>i<k. \<not> last_page ps (u (req ps i))" unfolding lp by (simp add: not_less)
    from b have b': "last_page ps (u (req ps k))" unfolding lp .
    from fetch_loop_from_start [OF a' b'] show ?L
      unfolding rq c d by simp
  qed
  have 2: "fetch_loop u ps 0 [] [] = None \<longleftrightarrow>
        (\<forall>i. \<not> zero_accounts (u (req ps i)) \<and> ps \<le> length (appended (u (req ps i))))"
    (is "?N \<longleftrightarrow> ?A")
  proof
    assume ?N
    show ?A
    proof (rule ccontr)
      assume "\<not> ?A"
      then have "\<exists>i. last_page ps (u (req ps i))" unfolding lp by (simp add: not_le)
      then obtain k where k: "last_page ps (u (req ps k))"
        and least: "\<forall>i<k. \<not> last_page ps (u (req ps i))"
        using exists_least_iff [of "\<lambda>i. last_page ps (u (req ps i))"] by auto
      from fetch_loop_from_start [OF least k] \<open>?N\<close> show False by simp
    qed
  next
    assume ?A
    then have "\<forall>i. \<not> last_page ps (u (req ps (0 + i)))" unfolding lp by (simp add: not_less)
    then show ?N by (rule fetch_loop_diverges)
  qed
  have 3: "getTokenBalances u = map_option snd (fetch_loop u 1000 0 [] [])"
    by (simp add: getTokenBalances_def getAllTokenHolders_def)
  have 4: "fetch_loop u 1000 0 [] [] =
          Some ([\<lparr>page = 0, limit = 1000\<rparr>, \<lparr>page = 1, limit = 1000\<rparr>], appended (u (req 1000 0))) \<and>
        getTokenBalances u = Some (appended (u (req 1000 0)))"
    if s: "ps = 1000 \<and> length (appended (u (req 1000 0))) = 1000 \<and> zero_accounts (u (req 1000 1))"
  proof -
    from s have z: "appended (u (req 1000 1)) = []"
      by (cases "u (req 1000 1)" rule: zero_accounts.cases) (simp_all add: appended_def)
    from s have nz: "\<not> zero_accounts (u (req 1000 0))"
      by (cases "u (req 1000 0)" rule: zero_accounts.cases) (auto simp add: appended_def)
    have a': "\<forall>i<1. \<not> last_page 1000 (u (req 1000 i))"
      using s nz lp [of "u (req 1000 0)"] by simp
    have b': "last_page 1000 (u (req 1000 1))"
      using s lp [of "u (req 1000 1)"] by simp
    from fetch_loop_from_start [OF a' b'] s z
    have "fetch_loop u 1000 0 [] [] =
          Some ([\<lparr>page = 0, limit = 1000\<rparr>, \<lparr>page = 1, limit = 1000\<rparr>], appended (u (req 1000 0)))"
      by (simp add: req_def)
    then show ?thesis by (simp add: 3)
  qed
  have 5: "\<forall>accs. Malformed \<notin> set accs \<longrightarrow>
        appended (Result (Some accs)) = map to_holder (filter keep accs)"
    by (simp add: appended_def)
  from 1 2 3 4 5 show ?thesis by blast
qed

theorem pagination_stops_at_first_short_page_witness:
  "(0::nat) < 1000 \<and>
   fetch_loop (serve [Result (Some (replicate 1000 (Parsed ''X'' ''1''))), Result (Some [])]) 1000 0 [] [] =
     Some ([\<lparr>page = 0, limit = 1000\<rparr>, \<lparr>page = 1, limit = 1000\<rparr>],
           replicate 1000 \<lparr>account = ''X'', amount = ''1''\<rparr>)"
proof -
  let ?u = "serve [Result (Some (replicate 1000 (Parsed ''X'' ''1''))), Result (Some [])]"
  have pos: "(0::nat) < 1000" by simp
  have p0: "appended (?u (req 1000 0)) = replicate 1000 \<lparr>account = ''X'', amount = ''1''\<rparr>"
    by (simp add: serve_page appended_def EXCLUDED_ADDRESSES_def filter_replicate)
  have p1: "zero_accounts (?u (req 1000 1))"
    by (simp add: serve_page)
  from pagination_stops_at_first_short_page [OF pos, of ?u] p0 p1
  have "fetch_loop ?u 1000 0 [] [] =
     Some ([\<lparr>page = 0, limit = 1000\<rparr>, \<lparr>page = 1, limit = 1000\<rparr>],
           replicate 1000 \<lparr>account = ''X'', amount = ''1''\<rparr>)"
    by simp
  with pos show ?thesis by blast
qed

text \<open>
  C6. When the pages before page \<open>k\<close> are fetched in full and the request for page \<open>k\<close>
  raises, or an account of page \<open>k\<close> cannot be read, the loop returns at once: page \<open>k\<close> is
  requested once and no page after it, and the result is the records of the pages before
  \<open>k\<close>. The fetch returns a value, it has no error to return, and \<^verbatim>\<open>calculateHHI\<close> goes on
  with these records. A failure on the second page returns the records of the first.
\<close>

theorem page_failure_returns_earlier_holders:
  "((\<forall>i<k. \<not> fails (u (req ps i)) \<and> \<not> zero_accounts (u (req ps i)) \<and>
            ps \<le> length (post_filter (u (req ps i)))) \<and>
    fails (u (req ps k)) \<longrightarrow>
      fetch_loop u ps 0 [] [] =
        Some (map (\<lambda>i. \<lparr>page = i, limit = ps\<rparr>) [0..<Suc k],
              concat (map (\<lambda>i. post_filter (u (req ps i))) [0..<k])) \<and>
      getAllTokenHolders u ps = Some (concat (map (\<lambda>i. post_filter (u (req ps i))) [0..<k]))) \<and>
   (\<not> fails (u (req 1000 0)) \<and> \<not> zero_accounts (u (req 1000 0)) \<and>
    1000 \<le> length (post_filter (u (req 1000 0))) \<and> fails (u (req 1000 1)) \<longrightarrow>
      getTokenBalances u = Some (post_filter (u (req 1000 0))) \<and>
      calculateHHI u = Some (computeHHI (post_filter (u (req 1000 0)))))"
proof -
  have gen: "fetch_loop u ps 0 [] [] =
        Some (map (\<lambda>i. \<lparr>page = i, limit = ps\<rparr>) [0..<Suc k],
              concat (map (\<lambda>i. post_filter (u (req ps i))) [0..<k])) \<and>
      getAllTokenHolders u ps = Some (concat (map (\<lambda>i. post_filter (u (req ps i))) [0..<k]))"
    if a: "\<forall>i<k. \<not> fails (u (req ps i)) \<and> \<not> zero_accounts (u (req ps i)) \<and>
            ps \<le> length (post_filter (u (req ps i)))"
      and b: "fails (u (req ps k))" for u ps k
  proof -
    from a have a': "\<forall>i<k. \<not> last_page ps (u (req ps i))" by (simp add: last_page_def not_less)
    from b have b': "last_page ps (u (req ps k))" by (simp add: last_page_def)
    have m: "map (\<lambda>i. appended (u (req ps i))) [0..<k] = map (\<lambda>i. post_filter (u (req ps i))) [0..<k]"
      using a by (simp add: appended_def)
    have e: "appended (u (req ps k)) = []" using b by (simp add: appended_def)
    have c: "concat (map (\<lambda>i. appended (u (req ps i))) [0..<Suc k]) =
             concat (map (\<lambda>i. post_filter (u (req ps i))) [0..<k])"
      by (simp add: m e)
    have r: "map (req ps) [0..<Suc k] = map (\<lambda>i. \<lparr>page = i, limit = ps\<rparr>) [0..<Suc k]"
      by (simp add: req_def)
    have "fetch_loop u ps 0 [] [] =
        Some (map (\<lambda>i. \<lparr>page = i, limit = ps\<rparr>) [0..<Suc k],
              concat (map (\<lambda>i. post_filter (u (req ps i))) [0..<k]))"
      using fetch_loop_from_start [OF a' b'] unfolding c r .
    then show ?thesis by (simp add: getAllTokenHolders_def)
  qed
  have scen: "getTokenBalances u = Some (post_filter (u (req 1000 0))) \<and>
      calculateHHI u = Some (computeHHI (post_filter (u (req 1000 0))))"
    if "\<not> fails (u (req 1000 0)) \<and> \<not> zero_accounts (u (req 1000 0)) \<and>
        1000 \<le> length (post_filter (u (req 1000 0))) \<and> fails (u (req 1000 1))"
  proof -
    from that gen [of 1 u 1000]
    have "getAllTokenHolders u 1000 = Some (post_filter (u (req 1000 0)))" by simp
    then show ?thesis by (simp add: getTokenBalances_def calculateHHI_def)
  qed
  from gen [of k u ps] scen show ?thesis by blast
qed

theorem page_failure_returns_earlier_holders_witness:
  "\<not> fails (serve [Result (Some [Parsed ''A'' ''5'', Parsed ''B'' ''7'']), Throws] (req 2 0)) \<and>
   \<not> zero_accounts (serve [Result (Some [Parsed ''A'' ''5'', Parsed ''B'' ''7'']), Throws] (req 2 0)) \<and>
   2 \<le> length (post_filter (serve [Result (Some [Parsed ''A'' ''5'', Parsed ''B'' ''7'']), Throws] (req 2 0))) \<and>
   fails (serve [Result (Some [Parsed ''A'' ''5'', Parsed ''B'' ''7'']), Throws] (req 2 1)) \<and>
   fetch_loop (serve [Result (Some [Parsed ''A'' ''5'', Parsed ''B'' ''7'']), Throws]) 2 0 [] [] =
     Some ([\<lparr>page = 0, limit = 2\<rparr>, \<lparr>page = 1, limit = 2\<rparr>],
           [\<lparr>account = ''A'', amount = ''5''\<rparr>, \<lparr>account = ''B'', amount = ''7''\<rparr>])"
proof -
  let ?u = "serve [Result (Some [Parsed ''A'' ''5'', Parsed ''B'' ''7'']), Throws]"
  have p0: "?u (req 2 0) = Result (Some [Parsed ''A'' ''5'', Parsed ''B'' ''7''])"
    by (simp add: serve_page)
  have p1: "?u (req 2 1) = Throws"
    by (simp add: serve_page)
  have a0: "\<not> fails (?u (req 2 0)) \<and> \<not> zero_accounts (?u (req 2 0)) \<and>
           2 \<le> length (post_filter (?u (req 2 0)))"
    by (simp add: p0 EXCLUDED_ADDRESSES_def)
  then have a: "\<forall>i<1. \<not> fails (?u (req 2 i)) \<and> \<not> zero_accounts (?u (req 2 i)) \<and>
           2 \<le> length (post_filter (?u (req 2 i)))"
    by simp
  have b: "fails (?u (req 2 1))" unfolding p1 by simp
  from page_failure_returns_earlier_holders [of 1 ?u 2] a b
  have "fetch_loop ?u 2 0 [] [] =
     Some ([\<lparr>page = 0, limit = 2\<rparr>, \<lparr>page = 1, limit = 2\<rparr>],
           [\<lparr>account = ''A'', amount = ''5''\<rparr>, \<lparr>account = ''B'', amount = ''7''\<rparr>])"
    by (simp add: p0 EXCLUDED_ADDRESSES_def)
  with a0 b show ?thesis by blast
qed

section \<open>The empty result and failures\<close>

lemma hhi_body_cases:
  "hhi_body hs =
     (if hs = [] then Inr emptyResult
      else if \<exists>h\<in>set hs. StringToBigInt (amount h) = None then
        Inl (Error (''Cannot convert '' @
          amount (hd (filter (\<lambda>h. StringToBigInt (amount h) = None) hs)) @ '' to a BigInt''))
      else if sum_list (map value_of hs) = 0 then Inr emptyResult
      else Inr \<lparr>hhi = Number (sum_list (map (\<lambda>h. squared (value_of h) (sum_list (map value_of hs))) hs)),
          totalSupply = toString (sum_list (map value_of hs)),
          holderCount = length hs,
          topHolders = take 10 (sort_holders (map (with_percentage (sum_list (map value_of hs))) hs)),
          concentrationLevel = getConcentrationLevel
            (Number (sum_list (map (\<lambda>h. squared (value_of h) (sum_list (map value_of hs))) hs)))\<rparr>)"
proof (cases "hs = []")
  case True
  then show ?thesis by (simp add: hhi_body_def)
next
  case ne: False
  show ?thesis
  proof (cases "\<exists>h\<in>set hs. StringToBigInt (amount h) = None")
    case True
    have "reduce_sum hs acc = Inl (Error (''Cannot convert '' @
          amount (hd (filter (\<lambda>h. StringToBigInt (amount h) = None) hs)) @ '' to a BigInt''))"
      for acc
      using True
    proof (induction hs arbitrary: acc)
      case Nil
      then show ?case by simp
    next
      case (Cons h hs)
      show ?case
      proof (cases "StringToBigInt (amount h)")
        case None
        then show ?thesis by (simp add: BigInt_def)
      next
        case (Some v)
        with Cons.prems have "\<exists>h\<in>set hs. StringToBigInt (amount h) = None" by auto
        from Cons.IH [OF this] Some show ?thesis by (simp add: BigInt_def)
      qed
    qed
    with ne True show ?thesis by (simp add: hhi_body_def)
  next
    case False
    then have parsed: "\<forall>h\<in>set hs. StringToBigInt (amount h) \<noteq> None" by simp
    show ?thesis
    proof (cases "sum_list (map value_of hs) = 0")
      case True
      with ne False parsed show ?thesis
        by (simp add: hhi_body_def reduce_sum_parsed)
    next
      case nz: False
      from hhi_body_result [OF ne parsed nz] ne False nz show ?thesis by simp
    qed
  qed
qed

lemma sum_list_all_zero:
  fixes f :: "'a \<Rightarrow> int"
  shows "\<forall>x\<in>set xs. f x = 0 \<Longrightarrow> sum_list (map f xs) = 0"
  by (induction xs) simp_all

lemma computeHHI_empty_iff:
  "computeHHI hs = Inr emptyResult \<longleftrightarrow> hs = [] \<or> reduce_sum hs 0 = Inr 0"
proof (cases "hs = []")
  case True
  then show ?thesis by (simp add: computeHHI_def rethrow_def hhi_body_def)
next
  case ne: False
  show ?thesis
  proof (cases "\<exists>h\<in>set hs. StringToBigInt (amount h) = None")
    case True
    have "reduce_sum hs 0 \<noteq> Inr 0"
    proof
      assume "reduce_sum hs 0 = Inr 0"
      from reduce_sum_Inr [OF this] True show False by blast
    qed
    with ne True show ?thesis
      by (simp add: computeHHI_def rethrow_def hhi_body_cases)
  next
    case False
    then have parsed: "\<forall>h\<in>set hs. StringToBigInt (amount h) \<noteq> None" by simp
    have len: "length hs \<noteq> 0" using ne by simp
    show ?thesis
      using ne False len
      by (simp add: computeHHI_def rethrow_def hhi_body_cases reduce_sum_parsed [OF parsed]
          emptyResult_def)
  qed
qed

lemma fetch_first_page_empty:
  assumes "appended (u (req ps 0)) = []" and "0 < ps"
  shows "getAllTokenHolders u ps = Some []"
proof -
  have "last_page ps (u (req ps 0))"
    using assms by (simp add: last_page_appended)
  from fetch_loop_from_start [of 0 ps u] this assms(1) show ?thesis
    by (simp add: getAllTokenHolders_def)
qed

text \<open>
  C3. Once the holders are fetched, \<^verbatim>\<open>calculateHHI\<close> returns the empty result, without
  raising, exactly when the list of holders is empty or the total that it computes is
  zero. The empty result has the index 0, the total \<^verbatim>\<open>"0"\<close>, the count 0, no top holders
  and the level \<^verbatim>\<open>"No active holders"\<close>. When every fetched holder has an amount that
  reads as zero the result is the empty one, and so it is when every account that the
  upstream returns has the amount \<^verbatim>\<open>"0"\<close>: the filter drops them all and the loop ends on
  the first page.
\<close>

theorem empty_result_iff_no_holders_or_zero_total:
  "(getAllTokenHolders u 1000 = Some hs \<longrightarrow>
      (calculateHHI u = Some (Inr emptyResult) \<longleftrightarrow> hs = [] \<or> reduce_sum hs 0 = Inr 0)) \<and>
   (computeHHI hs = Inr emptyResult \<longleftrightarrow> hs = [] \<or> reduce_sum hs 0 = Inr 0) \<and>
   emptyResult = \<lparr>hhi = 0, totalSupply = ''0'', holderCount = 0, topHolders = [],
                  concentrationLevel = ''No active holders''\<rparr> \<and>
   (getAllTokenHolders u 1000 = Some hs \<and> (\<forall>h\<in>set hs. StringToBigInt (amount h) = Some 0) \<longrightarrow>
      calculateHHI u = Some (Inr emptyResult)) \<and>
   ((\<forall>rq. list_all zero_amount (accounts_of (u rq))) \<longrightarrow>
      calculateHHI u = Some (Inr emptyResult))"
proof (intro conjI impI)
  assume "getAllTokenHolders u 1000 = Some hs"
  then show "calculateHHI u = Some (Inr emptyResult) \<longleftrightarrow> hs = [] \<or> reduce_sum hs 0 = Inr 0"
    by (simp add: calculateHHI_def computeHHI_empty_iff)
next
  show "computeHHI hs = Inr emptyResult \<longleftrightarrow> hs = [] \<or> reduce_sum hs 0 = Inr 0"
    by (rule computeHHI_empty_iff)
next
  show "emptyResult = \<lparr>hhi = 0, totalSupply = ''0'', holderCount = 0, topHolders = [],
                  concentrationLevel = ''No active holders''\<rparr>"
    by (simp add: emptyResult_def)
next
  assume a: "getAllTokenHolders u 1000 = Some hs \<and> (\<forall>h\<in>set hs. StringToBigInt (amount h) = Some 0)"
  then have parsed: "\<forall>h\<in>set hs. StringToBigInt (amount h) \<noteq> None" by simp
  from a have "\<forall>h\<in>set hs. value_of h = 0" by (simp add: value_of_def)
  then have "sum_list (map value_of hs) = 0" by (rule sum_list_all_zero)
  then have "reduce_sum hs 0 = Inr 0" by (simp add: reduce_sum_parsed [OF parsed])
  with a show "calculateHHI u = Some (Inr emptyResult)"
    by (simp add: calculateHHI_def computeHHI_empty_iff)
next
  assume a: "\<forall>rq. list_all zero_amount (accounts_of (u rq))"
  have "appended (u (req 1000 0)) = []"
  proof (cases "u (req 1000 0)")
    case Throws
    then show ?thesis by (simp add: appended_def)
  next
    case (Result v)
    show ?thesis
    proof (cases v)
      case None
      with Result show ?thesis by (simp add: appended_def)
    next
      case (Some accs)
      from a have "list_all zero_amount (accounts_of (u (req 1000 0)))" by blast
      with Result Some have z: "\<forall>a\<in>set accs. zero_amount a" by (simp add: list_all_iff)
      have "\<not> keep a" if "a \<in> set accs" for a
        using z that by (cases a) auto
      then have "filter keep accs = []" by (simp add: filter_empty_conv)
      with Result Some show ?thesis by (simp add: appended_def)
    qed
  qed
  then have "getAllTokenHolders u 1000 = Some []" by (rule fetch_first_page_empty) simp
  then show "calculateHHI u = Some (Inr emptyResult)"
    by (simp add: calculateHHI_def computeHHI_empty_iff)
qed

theorem empty_result_iff_no_holders_or_zero_total_witness:
  "(\<forall>rq. list_all zero_amount
           (accounts_of (serve [Result (Some [Parsed ''A'' ''0'', Parsed ''B'' ''0''])] rq))) \<and>
   calculateHHI (serve [Result (Some [Parsed ''A'' ''0'', Parsed ''B'' ''0''])]) =
     Some (Inr \<lparr>hhi = 0, totalSupply = ''0'', holderCount = 0, topHolders = [],
                concentrationLevel = ''No active holders''\<rparr>)"
proof -
  let ?u = "serve [Result (Some [Parsed ''A'' ''0'', Parsed ''B'' ''0''])]"
  have a: "\<forall>rq. list_all zero_amount (accounts_of (?u rq))"
    by (simp add: serve_def)
  with empty_result_iff_no_holders_or_zero_total [of ?u]
  have "calculateHHI ?u = Some (Inr emptyResult)" by blast
  with a show ?thesis by (simp add: emptyResult_def)
qed

text \<open>
  C10. When the amount of a fetched holder is not an integer literal, \<^verbatim>\<open>BigInt\<close> raises in
  the \<^verbatim>\<open>reduce\<close>, and \<^verbatim>\<open>calculateHHI\<close> raises an error whose message is
  \<^verbatim>\<open>HHI calculation failed:\<close> followed by the message of \<^verbatim>\<open>BigInt\<close>, which names the first
  such amount. This outcome is an error, not a result, so it is not the empty result.
\<close>

theorem malformed_amount_raises:
  "getAllTokenHolders u 1000 = Some hs \<and> (\<exists>h\<in>set hs. StringToBigInt (amount h) = None) \<longrightarrow>
     (\<exists>h\<in>set hs. StringToBigInt (amount h) = None \<and>
        calculateHHI u =
          Some (Inl (Error (''HHI calculation failed: '' @
                            ''Cannot convert '' @ amount h @ '' to a BigInt'')))) \<and>
     calculateHHI u \<noteq> Some (Inr emptyResult) \<and>
     (\<forall>r. calculateHHI u \<noteq> Some (Inr r))"
proof
  assume a: "getAllTokenHolders u 1000 = Some hs \<and> (\<exists>h\<in>set hs. StringToBigInt (amount h) = None)"
  then have ne: "hs \<noteq> []" by auto
  from a have ex: "\<exists>h\<in>set hs. StringToBigInt (amount h) = None" by simp
  let ?bad = "filter (\<lambda>h. StringToBigInt (amount h) = None) hs"
  from ex have "?bad \<noteq> []" by (simp add: filter_empty_conv)
  then have "hd ?bad \<in> set ?bad" by (rule hd_in_set)
  then have "hd ?bad \<in> {h \<in> set hs. StringToBigInt (amount h) = None}" by (simp only: set_filter)
  then have bad: "hd ?bad \<in> set hs" and "StringToBigInt (amount (hd ?bad)) = None" by blast+
  moreover have "calculateHHI u =
          Some (Inl (Error (''HHI calculation failed: '' @
                            ''Cannot convert '' @ amount (hd ?bad) @ '' to a BigInt'')))"
    using a ne ex by (simp add: calculateHHI_def computeHHI_def rethrow_def hhi_body_cases)
  ultimately show "(\<exists>h\<in>set hs. StringToBigInt (amount h) = None \<and>
        calculateHHI u =
          Some (Inl (Error (''HHI calculation failed: '' @
                            ''Cannot convert '' @ amount h @ '' to a BigInt'')))) \<and>
     calculateHHI u \<noteq> Some (Inr emptyResult) \<and>
     (\<forall>r. calculateHHI u \<noteq> Some (Inr r))"
    by auto
qed

theorem malformed_amount_raises_witness:
  "getAllTokenHolders (serve [Result (Some [Parsed ''A'' ''5'', Parsed ''B'' ''1.5''])]) 1000 =
     Some [\<lparr>account = ''A'', amount = ''5''\<rparr>, \<lparr>account = ''B'', amount = ''1.5''\<rparr>] \<and>
   StringToBigInt ''1.5'' = None \<and>
   calculateHHI (serve [Result (Some [Parsed ''A'' ''5'', Parsed ''B'' ''1.5''])]) =
     Some (Inl (Error ''HHI calculation failed: Cannot convert 1.5 to a BigInt''))"
proof -
  let ?u = "serve [Result (Some [Parsed ''A'' ''5'', Parsed ''B'' ''1.5''])]"
  let ?hs = "[\<lparr>account = ''A'', amount = ''5''\<rparr>, \<lparr>account = ''B'', amount = ''1.5''\<rparr>]"
  have p0: "?u (req 1000 0) = Result (Some [Parsed ''A'' ''5'', Parsed ''B'' ''1.5''])"
    by (simp add: serve_page)
  have lp: "last_page 1000 (?u (req 1000 0))"
    by (simp add: p0 last_page_def)
  have f: "getAllTokenHolders ?u 1000 = Some ?hs"
    using fetch_loop_from_start [of 0 1000 ?u] lp
    by (simp add: getAllTokenHolders_def p0 appended_def EXCLUDED_ADDRESSES_def)
  have b: "StringToBigInt ''1.5'' = None"
    by (simp add: StringToBigInt_def trim_def is_white_space_def digits_def digit_value_def)
  have g: "StringToBigInt ''5'' = Some 5"
    by (simp add: StringToBigInt_def trim_def is_white_space_def digits_def digit_value_def)
  from malformed_amount_raises [of ?u ?hs] f b g
  have "calculateHHI ?u =
     Some (Inl (Error ''HHI calculation failed: Cannot convert 1.5 to a BigInt''))"
    by simp
  with f b show ?thesis by blast
qed

section \<open>Range of the index and percentages\<close>

lemma single_owner_count:
  fixes T :: int
  assumes nonneg: "\<forall>h\<in>set hs. 0 \<le> f h" and T: "T = sum_list (map f hs)" and pos: "0 < T"
  shows "(\<exists>h\<in>set hs. f h = T) \<longleftrightarrow> length (filter (\<lambda>h. f h = T) hs) = 1"
proof
  assume "\<exists>h\<in>set hs. f h = T"
  then have "filter (\<lambda>h. f h = T) hs \<noteq> []" by (simp add: filter_empty_conv)
  then have one: "1 \<le> length (filter (\<lambda>h. f h = T) hs)" by (simp add: Suc_le_eq)
  have vs: "\<forall>v\<in>set (map f hs). 0 \<le> v" using nonneg by simp
  have "length (filter (\<lambda>v. v = T) (map f hs)) = length (filter (\<lambda>h. f h = T) hs)"
    by (simp add: filter_map o_def)
  with count_owner_le [OF vs, of T] have "T * int (length (filter (\<lambda>h. f h = T) hs)) \<le> T * 1"
    by (simp add: T)
  with pos have "int (length (filter (\<lambda>h. f h = T) hs)) \<le> 1"
    by (simp add: mult_le_cancel_left)
  with one show "length (filter (\<lambda>h. f h = T) hs) = 1" by simp
next
  assume "length (filter (\<lambda>h. f h = T) hs) = 1"
  then have "filter (\<lambda>h. f h = T) hs \<noteq> []" by auto
  then show "\<exists>h\<in>set hs. f h = T" by (simp add: filter_empty_conv)
qed

lemma single_owner_single_record:
  fixes T :: int
  assumes positive: "\<forall>h\<in>set hs. 0 < f h" and T: "T = sum_list (map f hs)"
  shows "(\<exists>h\<in>set hs. f h = T) \<longleftrightarrow> length hs = 1"
proof
  assume "\<exists>h\<in>set hs. f h = T"
  then have m: "T \<in> set (map f hs)" by auto
  then have ne: "hs \<noteq> []" by auto
  have vs: "\<forall>v\<in>set (map f hs). 0 < v" using positive by simp
  from positive_sum_length [OF vs m] have "int (length hs) \<le> 1" by (simp add: T)
  with ne show "length hs = 1" by (cases hs) simp_all
next
  assume "length hs = 1"
  then obtain h where "hs = [h]" by (cases hs) simp_all
  then show "\<exists>h\<in>set hs. f h = T" by (simp add: T)
qed

lemma StringToBigInt_100: "StringToBigInt ''100'' = Some 100"
  by (simp add: StringToBigInt_def trim_def is_white_space_def digits_def digit_value_def)

lemma single_holder:
  "computeHHI [\<lparr>account = x, amount = ''100''\<rparr>] =
   Inr \<lparr>hhi = 10000, totalSupply = ''100'', holderCount = 1,
        topHolders = [\<lparr>account = x, amount = ''100'', percentage = 100\<rparr>],
        concentrationLevel = ''Extreme concentration (risk of manipulation)''\<rparr>"
  by (simp add: computeHHI_def rethrow_def hhi_body_def BigInt_def StringToBigInt_100 toString_100
      squared_def percentage_of_def bigint_div_def Number_def sort_holders_def
      getConcentrationLevel_def)

text \<open>
  C2. Take a list of holders whose amounts are unsigned decimal numbers and whose total
  \<open>T\<close> is positive. The index that \<^verbatim>\<open>calculateHHI\<close> returns lies between 0 and 10000. It
  is 10000 exactly when one record of the list, and only one, holds the whole supply;
  when no holder has the amount zero, as after the filter of the fetch on amounts in
  canonical form, that is exactly when the list has one record. A single holder of 100
  gives the index 10000.
\<close>

theorem hhi_range_and_maximum:
  assumes "\<forall>h\<in>set hs. unsigned_decimal (amount h)"
    and "reduce_sum hs 0 = Inr T" and "0 < T"
  shows "\<exists>r. computeHHI hs = Inr r \<and> 0 \<le> hhi r \<and> hhi r \<le> 10000 \<and>
           (hhi r = 10000 \<longleftrightarrow> length (filter (\<lambda>h. value_of h = T) hs) = 1) \<and>
           ((\<forall>h\<in>set hs. 0 < value_of h) \<longrightarrow> (hhi r = 10000 \<longleftrightarrow> length hs = 1)) \<and>
           computeHHI [\<lparr>account = x, amount = ''100''\<rparr>] =
             Inr \<lparr>hhi = 10000, totalSupply = ''100'', holderCount = 1,
                  topHolders = [\<lparr>account = x, amount = ''100'', percentage = 100\<rparr>],
                  concentrationLevel = ''Extreme concentration (risk of manipulation)''\<rparr>"
proof -
  from reduce_sum_Inr [OF assms(2)]
  have parsed: "\<forall>h\<in>set hs. StringToBigInt (amount h) \<noteq> None"
    and T: "T = sum_list (map value_of hs)" by simp_all
  from assms(3) T have ne: "hs \<noteq> []" by auto
  from assms(3) have T0: "sum_list (map value_of hs) \<noteq> 0" by (simp add: T)
  have nonneg: "\<forall>h\<in>set hs. 0 \<le> value_of h"
    using assms(1) by (simp add: value_of_unsigned)
  let ?H = "\<Sum>h\<leftarrow>hs. (value_of h * value_of h * 10000) div (T * T)"
  define r where "r = \<lparr>hhi = ?H, totalSupply = toString T, holderCount = length hs,
          topHolders = take 10 (sort_holders (map (with_percentage T) hs)),
          concentrationLevel = getConcentrationLevel ?H\<rparr>"
  have sq: "squared a T = (a * a * 10000) div (T * T)" for a
    using assms(3) by (simp add: squared_floor)
  have res: "computeHHI hs = Inr r"
    using computeHHI_result [OF ne parsed T0] by (simp add: r_def T [symmetric] sq Number_def)
  have h: "hhi r = ?H" by (simp add: r_def)
  note b = squared_sum_bounds [OF nonneg T assms(3)]
  have max1: "hhi r = 10000 \<longleftrightarrow> length (filter (\<lambda>h. value_of h = T) hs) = 1"
    unfolding h b(3) by (rule single_owner_count [OF nonneg T assms(3)])
  have max2: "hhi r = 10000 \<longleftrightarrow> length hs = 1" if "\<forall>h\<in>set hs. 0 < value_of h"
    unfolding h b(3) using that T by (rule single_owner_single_record)
  from res h b(1) b(2) max1 max2 single_holder show ?thesis by auto
qed

theorem hhi_range_and_maximum_witness:
  "list_all (\<lambda>h. unsigned_decimal (amount h))
     [\<lparr>account = ''X'', amount = ''75''\<rparr>, \<lparr>account = ''Y'', amount = ''25''\<rparr>] \<and>
   reduce_sum [\<lparr>account = ''X'', amount = ''75''\<rparr>, \<lparr>account = ''Y'', amount = ''25''\<rparr>] 0 = Inr 100 \<and>
   (0::int) < 100 \<and>
   (\<exists>r. computeHHI [\<lparr>account = ''X'', amount = ''75''\<rparr>, \<lparr>account = ''Y'', amount = ''25''\<rparr>] = Inr r \<and>
        0 \<le> hhi r \<and> hhi r \<le> 10000 \<and> hhi r \<noteq> 10000)"
proof -
  let ?hs = "[\<lparr>account = ''X'', amount = ''75''\<rparr>, \<lparr>account = ''Y'', amount = ''25''\<rparr>]"
  have v75: "StringToBigInt ''75'' = Some 75"
    by (simp add: StringToBigInt_def trim_def is_white_space_def digits_def digit_value_def)
  have a: "\<forall>h\<in>set ?hs. unsigned_decimal (amount h)"
    by (simp add: unsigned_decimal_def is_digit_def)
  have b: "reduce_sum ?hs 0 = Inr 100"
    by (simp add: BigInt_def v75 StringToBigInt_25)
  have c: "(0::int) < 100" by simp
  from hhi_range_and_maximum [OF a b c] obtain r where
    "computeHHI ?hs = Inr r" "0 \<le> hhi r" "hhi r \<le> 10000"
    "hhi r = 10000 \<longleftrightarrow> length (filter (\<lambda>h. value_of h = 100) ?hs) = 1"
    by blast
  then have "computeHHI ?hs = Inr r \<and> 0 \<le> hhi r \<and> hhi r \<le> 10000 \<and> hhi r \<noteq> 10000"
    by (simp add: value_of_def v75 StringToBigInt_25)
  with a b c show ?thesis by (simp only: list_all_iff) blast
qed




lemma set_sort_holders: "set (sort_holders hs) = set hs"
  by (simp add: sort_holders_def)

lemma value_of_with_percentage: "value_of (with_percentage T h) = value_of h"
  by (simp add: value_of_def with_percentage_def)



section \<open>Ranking\<close>

lemma computeHHI_nonempty_result:
  assumes "computeHHI hs = Inr r" and "r \<noteq> emptyResult"
  shows "hs \<noteq> [] \<and> (\<forall>h\<in>set hs. StringToBigInt (amount h) \<noteq> None) \<and>
         sum_list (map value_of hs) \<noteq> 0 \<and>
         reduce_sum hs 0 = Inr (sum_list (map value_of hs)) \<and>
         r = \<lparr>hhi = Number (sum_list (map (\<lambda>h. squared (value_of h) (sum_list (map value_of hs))) hs)),
          totalSupply = toString (sum_list (map value_of hs)),
          holderCount = length hs,
          topHolders = take 10 (sort_holders (map (with_percentage (sum_list (map value_of hs))) hs)),
          concentrationLevel = getConcentrationLevel
            (Number (sum_list (map (\<lambda>h. squared (value_of h) (sum_list (map value_of hs))) hs)))\<rparr>"
proof -
  from assms have "hhi_body hs = Inr r"
    by (cases "hhi_body hs") (simp_all add: computeHHI_def rethrow_def)
  with assms(2) have ne: "hs \<noteq> []"
    and parsed: "\<not> (\<exists>h\<in>set hs. StringToBigInt (amount h) = None)"
    and nz: "sum_list (map value_of hs) \<noteq> 0"
    by (auto simp add: hhi_body_cases split: if_splits)
  from parsed have p: "\<forall>h\<in>set hs. StringToBigInt (amount h) \<noteq> None" by simp
  from computeHHI_result [OF ne p nz] assms(1) reduce_sum_parsed [OF p, of 0] ne p nz
  show ?thesis by simp
qed

lemma sort_holders_properties:
  "mset (sort_holders xs) = mset xs"
  "sorted_wrt (\<lambda>a b. percentage b \<le> percentage a) (sort_holders xs)"
  "filter (\<lambda>t. percentage t = p) (sort_holders xs) = filter (\<lambda>t. percentage t = p) xs"
proof -
  show "mset (sort_holders xs) = mset xs" by (simp add: sort_holders_def)
  have "sorted (map (\<lambda>h. - percentage h) (sort_holders xs))"
    unfolding sort_holders_def by (rule sorted_sort_key)
  then show "sorted_wrt (\<lambda>a b. percentage b \<le> percentage a) (sort_holders xs)"
    by (simp add: sorted_map)
  have "filter (\<lambda>t. - percentage t = - p) (sort_holders xs) = filter (\<lambda>t. - percentage t = - p) xs"
    unfolding sort_holders_def by (rule sort_key_stable)
  then show "filter (\<lambda>t. percentage t = p) (sort_holders xs) = filter (\<lambda>t. percentage t = p) xs"
    by simp
qed

text \<open>
  C8. Take holders whose amounts are unsigned decimal numbers and a result that is not
  the empty one. The top holders are the first \<open>min 10 holderCount\<close> elements of a list
  \<open>ss\<close> that holds the objects of all the holders, each once, in descending order of
  percentage, and in which the holders of one percentage stand in the order in which they
  were fetched. These three properties determine \<open>ss\<close>: it is the stable descending sort.
\<close>

theorem topHolders_first_of_stable_descending_sort:
  assumes "\<forall>h\<in>set hs. unsigned_decimal (amount h)"
    and "computeHHI hs = Inr r" and "r \<noteq> emptyResult"
  shows "\<exists>T ss. reduce_sum hs 0 = Inr T \<and> 0 < T \<and> holderCount r = length hs \<and>
           topHolders r = take (min 10 (holderCount r)) ss \<and>
           length (topHolders r) = min 10 (holderCount r) \<and>
           mset ss = mset (map (with_percentage T) hs) \<and>
           sorted_wrt (\<lambda>a b. percentage b \<le> percentage a) ss \<and>
           (\<forall>p. filter (\<lambda>t. percentage t = p) ss =
                filter (\<lambda>t. percentage t = p) (map (with_percentage T) hs))"
proof -
  let ?T = "sum_list (map value_of hs)"
  let ?ss = "sort_holders (map (with_percentage ?T) hs)"
  from computeHHI_nonempty_result [OF assms(2,3)]
  have nz: "?T \<noteq> 0" and red: "reduce_sum hs 0 = Inr ?T"
    and cnt: "holderCount r = length hs" and top: "topHolders r = take 10 ?ss"
    by simp_all
  have "0 \<le> ?T"
    by (rule sum_list_nonneg) (use assms(1) in \<open>auto simp add: value_of_unsigned\<close>)
  with nz have pos: "0 < ?T" by simp
  have len: "length ?ss = length hs"
    using sort_holders_properties(1) [where xs = "map (with_percentage ?T) hs"]
    by (metis length_map size_mset)
  have t1: "topHolders r = take (min 10 (holderCount r)) ?ss"
    unfolding top cnt using len by (simp add: min_def)
  have t2: "length (topHolders r) = min 10 (holderCount r)"
    unfolding top cnt using len by (simp add: min_def)
  from red pos cnt t1 t2 sort_holders_properties [where xs = "map (with_percentage ?T) hs"]
  show ?thesis by blast
qed

theorem topHolders_first_of_stable_descending_sort_witness:
  "list_all (\<lambda>h. unsigned_decimal (amount h))
     [\<lparr>account = ''X'', amount = ''25''\<rparr>, \<lparr>account = ''Y'', amount = ''50''\<rparr>,
      \<lparr>account = ''Z'', amount = ''25''\<rparr>] \<and>
   (\<exists>r. computeHHI [\<lparr>account = ''X'', amount = ''25''\<rparr>, \<lparr>account = ''Y'', amount = ''50''\<rparr>,
                     \<lparr>account = ''Z'', amount = ''25''\<rparr>] = Inr r \<and>
        r \<noteq> emptyResult \<and>
        topHolders r =
          [\<lparr>account = ''Y'', amount = ''50'', percentage = 50\<rparr>,
           \<lparr>account = ''X'', amount = ''25'', percentage = 25\<rparr>,
           \<lparr>account = ''Z'', amount = ''25'', percentage = 25\<rparr>] \<and>
        (\<exists>ss. topHolders r = take (min 10 (holderCount r)) ss \<and>
              sorted_wrt (\<lambda>a b. percentage b \<le> percentage a) ss))"
proof -
  let ?hs = "[\<lparr>account = ''X'', amount = ''25''\<rparr>, \<lparr>account = ''Y'', amount = ''50''\<rparr>,
              \<lparr>account = ''Z'', amount = ''25''\<rparr>]"
  let ?r = "\<lparr>hhi = 3750, totalSupply = ''100'', holderCount = 3,
        topHolders =
          [\<lparr>account = ''Y'', amount = ''50'', percentage = 50\<rparr>,
           \<lparr>account = ''X'', amount = ''25'', percentage = 25\<rparr>,
           \<lparr>account = ''Z'', amount = ''25'', percentage = 25\<rparr>],
        concentrationLevel = ''High concentration''\<rparr>"
  have v50: "StringToBigInt ''50'' = Some 50"
    by (simp add: StringToBigInt_def trim_def is_white_space_def digits_def digit_value_def)
  have a: "\<forall>h\<in>set ?hs. unsigned_decimal (amount h)"
    by (simp add: unsigned_decimal_def is_digit_def)
  have b: "computeHHI ?hs = Inr ?r"
    by (simp add: computeHHI_def rethrow_def hhi_body_def BigInt_def StringToBigInt_25 v50
        toString_100 squared_def percentage_of_def bigint_div_def Number_def sort_holders_def
        getConcentrationLevel_def)
  have c: "?r \<noteq> emptyResult" by (simp add: emptyResult_def)
  from topHolders_first_of_stable_descending_sort [OF a b c]
  obtain ss where "topHolders ?r = take (min 10 (holderCount ?r)) ss"
    and "sorted_wrt (\<lambda>a b. percentage b \<le> percentage a) ss"
    by blast
  moreover have "list_all (\<lambda>h. unsigned_decimal (amount h)) ?hs"
    using a by (simp only: list_all_iff)
  ultimately show ?thesis using b c by (intro conjI exI [of _ ?r]) auto
qed

section \<open>What the fetch leaves in the list\<close>

lemma appended_member:
  assumes "h \<in> set (appended (u rq))"
  shows "\<exists>accs ownr amt. u rq = Result (Some accs) \<and> Parsed ownr amt \<in> set accs \<and>
           ownr \<notin> EXCLUDED_ADDRESSES \<and> amt \<noteq> ''0'' \<and> h = \<lparr>account = ownr, amount = amt\<rparr>"
proof (cases "u rq")
  case Throws
  with assms show ?thesis by (simp add: appended_def)
next
  case (Result v)
  show ?thesis
  proof (cases v)
    case None
    with Result assms show ?thesis by (simp add: appended_def)
  next
    case (Some accs)
    with Result assms obtain a where a: "a \<in> set accs" "keep a" "h = to_holder a"
      by (auto simp add: appended_def split: if_splits)
    show ?thesis
    proof (cases a)
      case (Parsed ownr amt)
      with a Result Some show ?thesis by auto
    next
      case Malformed
      with a show ?thesis by simp
    qed
  qed
qed

lemma fetched_member:
  assumes "getAllTokenHolders u ps = Some hs" and "h \<in> set hs"
  shows "\<exists>rq accs ownr amt. u rq = Result (Some accs) \<and> Parsed ownr amt \<in> set accs \<and>
           ownr \<notin> EXCLUDED_ADDRESSES \<and> amt \<noteq> ''0'' \<and> h = \<lparr>account = ownr, amount = amt\<rparr>"
proof -
  from assms(1) obtain y where y: "fetch_loop u ps 0 [] [] = Some y" and hs: "hs = snd y"
    by (auto simp add: getAllTokenHolders_def)
  from fetch_loop_first_last_page [OF y] hs obtain k where
    "hs = concat (map (\<lambda>i. appended (u (req ps i))) [0..<Suc k])" by auto
  with assms(2) obtain i where "h \<in> set (appended (u (req ps i)))" by auto
  from appended_member [of h u "req ps i"] this show ?thesis by blast
qed

lemma decimal_value_snoc:
  "decimal_value (s @ [c]) acc = decimal_value s acc * 10 + (of_char c - 48)"
  by (simp add: decimal_value_def)

lemma digits10_decimal:
  "digits10 n \<noteq> [] \<and> list_all is_digit (digits10 n) \<and> decimal_value (digits10 n) 0 = n"
proof (induction n rule: digits10.induct)
  case (1 n)
  show ?case
  proof (cases "n < 10")
    case True
    then show ?thesis
      by (subst (1 2 3) digits10.simps) (simp add: is_digit_def decimal_value_def)
  next
    case False
    have d: "n mod 10 < 10" by simp
    from False "1.IH" have ih: "digits10 (n div 10) \<noteq> []" "list_all is_digit (digits10 (n div 10))"
      "decimal_value (digits10 (n div 10)) 0 = n div 10" by simp_all
    have "digits10 n = digits10 (n div 10) @ [char_of (48 + n mod 10)]"
      using False by (subst digits10.simps) simp
    moreover have "is_digit (char_of (48 + n mod 10))"
      using d by (simp add: is_digit_def)
    ultimately show ?thesis
      using ih d by (simp add: decimal_value_snoc)
  qed
qed

lemma toString_roundtrip: "0 \<le> k \<Longrightarrow> StringToBigInt (toString k) = Some k"
proof -
  assume k: "0 \<le> k"
  have "unsigned_decimal (digits10 (nat k))"
    using digits10_decimal [of "nat k"] by (simp add: unsigned_decimal_def)
  from StringToBigInt_unsigned [OF this] digits10_decimal [of "nat k"] k
  show ?thesis by (simp add: toString_def)
qed

lemma is_white_space_minus: "\<not> is_white_space CHR ''-''"
  by (simp add: is_white_space_def)

lemma trim_digits: 
  assumes "list_all is_digit ds" and "ds \<noteq> []" and "\<not> is_white_space c"
  shows "trim (c # ds) = c # ds"
proof -
  have 1: "dropWhile is_white_space (c # ds) = c # ds" using assms(3) by simp
  from assms(2) have "last ds \<in> set ds" by simp
  with assms(1) have "is_digit (last ds)" by (simp add: list_all_iff)
  then have l: "\<not> is_white_space (last (c # ds))"
    using assms(2) by (simp add: is_digit_not_space)
  have "rev (c # ds) = last (c # ds) # rev (butlast (c # ds))"
    by (metis append_butlast_last_id list.distinct(1) rev.simps(1) rev.simps(2) rev_append append_Cons append_Nil)
  then have 2: "dropWhile is_white_space (rev (c # ds)) = rev (c # ds)"
    using l by (metis dropWhile.simps(2))
  show ?thesis unfolding trim_def 1 2 by simp
qed

lemma toString_roundtrip_all: "StringToBigInt (toString k) = Some k"
proof (cases "0 \<le> k")
  case True
  then show ?thesis by (rule toString_roundtrip)
next
  case False
  let ?ds = "digits10 (nat (- k))"
  from digits10_decimal [of "nat (- k)"]
  have ne: "?ds \<noteq> []" and dg: "list_all is_digit ?ds" and v: "decimal_value ?ds 0 = nat (- k)"
    by simp_all
  have t: "trim (CHR ''-'' # ?ds) = CHR ''-'' # ?ds"
    using dg ne is_white_space_minus by (rule trim_digits)
  have "digits 10 ?ds = Some (nat (- k))"
    using ne dg v by (simp add: digits_def parse_digits_decimal)
  with False t show ?thesis
    by (simp add: toString_def StringToBigInt_def)
qed


lemma StringToBigInt_canonical_positive:
  assumes "canonical_amount s" and "s \<noteq> ''0''"
  shows "\<exists>v. StringToBigInt s = Some v \<and> 0 < v"
proof -
  from assms(1) have "unsigned_decimal s" by (simp add: canonical_amount_def)
  from StringToBigInt_unsigned [OF this] decimal_value_positive [OF assms]
  show ?thesis by simp
qed

text \<open>
  C7, as the code has it. Take the holders that the fetch returns and a result of
  \<^verbatim>\<open>calculateHHI\<close> on them that is not the empty one. Then \<^verbatim>\<open>totalSupply\<close> is the decimal
  text of the exact sum of the amounts of all the holders, every holder has an amount
  that \<^verbatim>\<open>BigInt\<close> reads and that is not the string \<^verbatim>\<open>"0"\<close>, which makes it greater than zero
  when it is written in canonical form, and an owner outside the excluded addresses. The
  same holds for the top holders of the result, each of which is one of the holders.
\<close>

theorem aggregated_holders_invariant:
  assumes "getAllTokenHolders u ps = Some hs"
    and "computeHHI hs = Inr r" and "r \<noteq> emptyResult"
  shows "totalSupply r = toString (sum_list (map value_of hs)) \<and>
         StringToBigInt (totalSupply r) = Some (sum_list (map value_of hs)) \<and>
         reduce_sum hs 0 = Inr (sum_list (map value_of hs)) \<and>
         holderCount r = length hs \<and>
         (\<forall>h\<in>set hs. StringToBigInt (amount h) = Some (value_of h) \<and> amount h \<noteq> ''0'' \<and>
                      (canonical_amount (amount h) \<longrightarrow> 0 < value_of h) \<and>
                      account h \<notin> EXCLUDED_ADDRESSES) \<and>
         (\<forall>t\<in>set (topHolders r). amount t \<noteq> ''0'' \<and>
                      (canonical_amount (amount t) \<longrightarrow> 0 < value_of t) \<and>
                      account t \<notin> EXCLUDED_ADDRESSES \<and>
                      (\<exists>h\<in>set hs. account t = account h \<and> amount t = amount h))"
proof -
  let ?T = "sum_list (map value_of hs)"
  from computeHHI_nonempty_result [OF assms(2,3)]
  have parsed: "\<forall>h\<in>set hs. StringToBigInt (amount h) \<noteq> None"
    and red: "reduce_sum hs 0 = Inr ?T" and tot: "totalSupply r = toString ?T"
    and cnt: "holderCount r = length hs"
    and top: "topHolders r = take 10 (sort_holders (map (with_percentage ?T) hs))"
    by simp_all
  have each: "StringToBigInt (amount h) = Some (value_of h) \<and> amount h \<noteq> ''0'' \<and>
              (canonical_amount (amount h) \<longrightarrow> 0 < value_of h) \<and>
              account h \<notin> EXCLUDED_ADDRESSES" if "h \<in> set hs" for h
  proof -
    from fetched_member [OF assms(1) that] obtain rq accs ownr amt where
      f: "ownr \<notin> EXCLUDED_ADDRESSES" "amt \<noteq> ''0''" "h = \<lparr>account = ownr, amount = amt\<rparr>"
      by blast
    from parsed that have p: "StringToBigInt (amount h) = Some (value_of h)"
      by (auto simp add: value_of_def)
    have "0 < value_of h" if c: "canonical_amount (amount h)"
    proof -
      from c f have "canonical_amount amt" by simp
      from StringToBigInt_canonical_positive [OF this f(2)] f(3) show ?thesis
        by (auto simp add: value_of_def)
    qed
    with p f show ?thesis by simp
  qed
  have rt: "StringToBigInt (totalSupply r) = Some ?T"
    unfolding tot by (rule toString_roundtrip_all)
  have tops: "amount t \<noteq> ''0'' \<and> (canonical_amount (amount t) \<longrightarrow> 0 < value_of t) \<and>
              account t \<notin> EXCLUDED_ADDRESSES \<and>
              (\<exists>h\<in>set hs. account t = account h \<and> amount t = amount h)"
    if "t \<in> set (topHolders r)" for t
  proof -
    from that have "t \<in> set (sort_holders (map (with_percentage ?T) hs))"
      unfolding top by (rule in_set_takeD)
    then have "t \<in> set (map (with_percentage ?T) hs)" by (simp only: set_sort_holders)
    then obtain h where h: "h \<in> set hs" "t = with_percentage ?T h" by auto
    have eq: "account t = account h" "amount t = amount h" "value_of t = value_of h"
      by (simp_all add: h(2) value_of_with_percentage) (simp_all add: with_percentage_def)
    from each [OF h(1)] h(1) show ?thesis unfolding eq by blast
  qed
  from tot rt red cnt each tops show ?thesis by blast
qed

theorem aggregated_holders_invariant_witness:
  "getAllTokenHolders
     (serve [Result (Some [Parsed ''A'' ''5'', Parsed ''11111111111111111111111111111111'' ''9'',
                           Parsed ''B'' ''0'', Parsed ''C'' ''7''])]) 1000 =
     Some [\<lparr>account = ''A'', amount = ''5''\<rparr>, \<lparr>account = ''C'', amount = ''7''\<rparr>] \<and>
   (\<exists>r. computeHHI [\<lparr>account = ''A'', amount = ''5''\<rparr>, \<lparr>account = ''C'', amount = ''7''\<rparr>] = Inr r \<and>
        r \<noteq> emptyResult \<and> totalSupply r = ''12'' \<and> StringToBigInt (totalSupply r) = Some 12 \<and>
        canonical_amount ''5'' \<and> 0 < value_of \<lparr>account = ''A'', amount = ''5''\<rparr> \<and>
        canonical_amount ''7'' \<and> 0 < value_of \<lparr>account = ''C'', amount = ''7''\<rparr>)"
proof -
  let ?page = "[Parsed ''A'' ''5'', Parsed ''11111111111111111111111111111111'' ''9'',
                Parsed ''B'' ''0'', Parsed ''C'' ''7'']"
  let ?u = "serve [Result (Some ?page)]"
  let ?hs = "[\<lparr>account = ''A'', amount = ''5''\<rparr>, \<lparr>account = ''C'', amount = ''7''\<rparr>]"
  have v5: "StringToBigInt ''5'' = Some 5"
    by (simp add: StringToBigInt_def trim_def is_white_space_def digits_def digit_value_def)
  have v7: "StringToBigInt ''7'' = Some 7"
    by (simp add: StringToBigInt_def trim_def is_white_space_def digits_def digit_value_def)
  have c5: "canonical_amount ''5''" and c7: "canonical_amount ''7''"
    by (simp_all add: canonical_amount_def unsigned_decimal_def is_digit_def)
  have p0: "?u (req 1000 0) = Result (Some ?page)"
    by (simp add: serve_page)
  have lp: "last_page 1000 (?u (req 1000 0))"
    by (simp add: p0 last_page_def)
  have b: "getAllTokenHolders ?u 1000 = Some ?hs"
    using fetch_loop_from_start [of 0 1000 ?u] lp
    by (simp add: getAllTokenHolders_def p0 appended_def EXCLUDED_ADDRESSES_def)
  have ne: "?hs \<noteq> []" by simp
  have parsed: "\<forall>h\<in>set ?hs. StringToBigInt (amount h) \<noteq> None" by (simp add: v5 v7)
  have nz: "sum_list (map value_of ?hs) \<noteq> 0" by (simp add: value_of_def v5 v7)
  from computeHHI_result [OF ne parsed nz] obtain r where
    c: "computeHHI ?hs = Inr r" and cnt: "holderCount r = 2" by simp
  from cnt have d: "r \<noteq> emptyResult" by (auto simp add: emptyResult_def)
  note inv = aggregated_holders_invariant [OF b c d]
  from inv have "totalSupply r = toString (sum_list (map value_of ?hs))"
    and "StringToBigInt (totalSupply r) = Some (sum_list (map value_of ?hs))"
    by blast+
  then have t: "totalSupply r = ''12'' \<and> StringToBigInt (totalSupply r) = Some 12"
    by (simp add: value_of_def v5 v7 toString_def digits10.simps char_of_def bit_0)
  from inv have "\<forall>h\<in>set ?hs. canonical_amount (amount h) \<longrightarrow> 0 < value_of h" by blast
  with c5 c7 have "0 < value_of \<lparr>account = ''A'', amount = ''5''\<rparr>"
    and "0 < value_of \<lparr>account = ''C'', amount = ''7''\<rparr>" by simp_all
  with b c d t c5 c7 show ?thesis by blast
qed

text \<open>
  C7 as it is written, that every holder has an amount above zero, fails on an amount
  that is zero and is not written \<^verbatim>\<open>"0"\<close>: the filter compares strings, so a holder with
  the amount \<^verbatim>\<open>"00"\<close> is kept and stands in a result that is not the empty one.
\<close>

theorem zero_with_leading_zero_counterexample:
  "unsigned_decimal ''00'' \<and>
   getAllTokenHolders (serve [Result (Some [Parsed ''A'' ''5'', Parsed ''B'' ''00''])]) 1000 =
     Some [\<lparr>account = ''A'', amount = ''5''\<rparr>, \<lparr>account = ''B'', amount = ''00''\<rparr>] \<and>
   calculateHHI (serve [Result (Some [Parsed ''A'' ''5'', Parsed ''B'' ''00''])]) =
     Some (Inr \<lparr>hhi = 10000, totalSupply = ''5'', holderCount = 2,
                topHolders =
                  [\<lparr>account = ''A'', amount = ''5'', percentage = 100\<rparr>,
                   \<lparr>account = ''B'', amount = ''00'', percentage = 0\<rparr>],
                concentrationLevel = ''Extreme concentration (risk of manipulation)''\<rparr>) \<and>
   \<lparr>hhi = 10000, totalSupply = ''5'', holderCount = 2,
     topHolders =
       [\<lparr>account = ''A'', amount = ''5'', percentage = 100\<rparr>,
        \<lparr>account = ''B'', amount = ''00'', percentage = 0\<rparr>],
     concentrationLevel = ''Extreme concentration (risk of manipulation)''\<rparr> \<noteq> emptyResult \<and>
   BigInt ''00'' = Inr 0 \<and>
   \<not> 0 < value_of \<lparr>account = ''B'', amount = ''00''\<rparr>"
proof -
  let ?u = "serve [Result (Some [Parsed ''A'' ''5'', Parsed ''B'' ''00''])]"
  let ?hs = "[\<lparr>account = ''A'', amount = ''5''\<rparr>, \<lparr>account = ''B'', amount = ''00''\<rparr>]"
  have v5: "StringToBigInt ''5'' = Some 5"
    by (simp add: StringToBigInt_def trim_def is_white_space_def digits_def digit_value_def)
  have v00: "StringToBigInt ''00'' = Some 0"
    by (simp add: StringToBigInt_def trim_def is_white_space_def digits_def digit_value_def)
  have t5: "toString 5 = ''5''"
    by (simp add: toString_def digits10.simps char_of_def bit_0)
  have ud: "unsigned_decimal ''00''"
    by (simp add: unsigned_decimal_def is_digit_def)
  have p0: "?u (req 1000 0) = Result (Some [Parsed ''A'' ''5'', Parsed ''B'' ''00''])"
    by (simp add: serve_page)
  have lp: "last_page 1000 (?u (req 1000 0))"
    by (simp add: p0 last_page_def)
  have f: "getAllTokenHolders ?u 1000 = Some ?hs"
    using fetch_loop_from_start [of 0 1000 ?u] lp
    by (simp add: getAllTokenHolders_def p0 appended_def EXCLUDED_ADDRESSES_def)
  have c: "computeHHI ?hs =
     Inr \<lparr>hhi = 10000, totalSupply = ''5'', holderCount = 2,
                topHolders =
                  [\<lparr>account = ''A'', amount = ''5'', percentage = 100\<rparr>,
                   \<lparr>account = ''B'', amount = ''00'', percentage = 0\<rparr>],
                concentrationLevel = ''Extreme concentration (risk of manipulation)''\<rparr>"
    by (simp add: computeHHI_def rethrow_def hhi_body_def BigInt_def v5 v00 t5
        squared_def percentage_of_def bigint_div_def Number_def sort_holders_def
        getConcentrationLevel_def)
  from ud f c show ?thesis
    by (simp add: calculateHHI_def emptyResult_def BigInt_def value_of_def v00)
qed

section \<open>Owners with several accounts\<close>

lemma count_concat:
  "length (filter P (concat xss)) = sum_list (map (\<lambda>xs. length (filter P xs)) xss)"
  by (induction xss) simp_all

lemma count_kept_accounts:
  assumes "Malformed \<notin> set accs"
  shows "length (filter (\<lambda>h. account h = ownr) (map to_holder (filter keep accs))) =
         length (filter (\<lambda>a. owner a = ownr \<and> keep a) accs)"
  using assms
proof (induction accs)
  case Nil
  then show ?case by simp
next
  case (Cons a accs)
  then show ?case by (cases a) auto
qed

text \<open>
  C9, as the code has it. The list that the fetch returns is the concatenation, in the
  order of the requests, of the records that each page yields, and a page that is read
  without failure yields one record for each of its accounts that passes the filter, in
  the order of the page. Nothing merges the records of one owner: an owner stands in the
  list once for each of its accounts that passes the filter.
\<close>

theorem holders_are_filtered_accounts_in_fetch_order:
  "(fetch_loop u ps 0 [] [] = Some (sent, hs) \<longrightarrow>
      hs = concat (map (\<lambda>rq. appended (u rq)) sent) \<and>
      (\<forall>ownr. length (filter (\<lambda>h. account h = ownr) hs) =
              (\<Sum>rq\<leftarrow>sent. length (filter (\<lambda>h. account h = ownr) (appended (u rq)))))) \<and>
   (\<forall>accs. Malformed \<notin> set accs \<longrightarrow>
      appended (Result (Some accs)) = map to_holder (filter keep accs) \<and>
      (\<forall>ownr. length (filter (\<lambda>h. account h = ownr) (appended (Result (Some accs)))) =
              length (filter (\<lambda>a. owner a = ownr \<and> keep a) accs)))"
proof (intro conjI impI allI)
  assume a: "fetch_loop u ps 0 [] [] = Some (sent, hs)"
  from fetch_loop_first_last_page [OF a] obtain k where
    s: "sent = map (req ps) [0..<Suc k]"
    and h: "hs = concat (map (\<lambda>i. appended (u (req ps i))) [0..<Suc k])" by auto
  show c: "hs = concat (map (\<lambda>rq. appended (u rq)) sent)"
    unfolding s h by (simp add: o_def)
  fix ownr
  show "length (filter (\<lambda>h. account h = ownr) hs) =
        (\<Sum>rq\<leftarrow>sent. length (filter (\<lambda>h. account h = ownr) (appended (u rq))))"
    unfolding c by (simp add: count_concat o_def)
next
  fix accs
  assume "Malformed \<notin> set accs"
  then show "appended (Result (Some accs)) = map to_holder (filter keep accs)"
    by (simp add: appended_def)
next
  fix accs ownr
  assume m: "Malformed \<notin> set accs"
  then have "appended (Result (Some accs)) = map to_holder (filter keep accs)"
    by (simp add: appended_def)
  with count_kept_accounts [OF m]
  show "length (filter (\<lambda>h. account h = ownr) (appended (Result (Some accs)))) =
        length (filter (\<lambda>a. owner a = ownr \<and> keep a) accs)"
    by simp
qed

theorem holders_are_filtered_accounts_in_fetch_order_witness:
  "fetch_loop (serve [Result (Some [Parsed ''A'' ''5'', Parsed ''B'' ''1'', Parsed ''A'' ''7''])])
     1000 0 [] [] =
     Some ([\<lparr>page = 0, limit = 1000\<rparr>],
           [\<lparr>account = ''A'', amount = ''5''\<rparr>, \<lparr>account = ''B'', amount = ''1''\<rparr>,
            \<lparr>account = ''A'', amount = ''7''\<rparr>]) \<and>
   [\<lparr>account = ''A'', amount = ''5''\<rparr>, \<lparr>account = ''B'', amount = ''1''\<rparr>,
    \<lparr>account = ''A'', amount = ''7''\<rparr>] =
     concat (map (\<lambda>rq. appended
        (serve [Result (Some [Parsed ''A'' ''5'', Parsed ''B'' ''1'', Parsed ''A'' ''7''])] rq))
        [\<lparr>page = 0, limit = 1000\<rparr>])"
proof -
  let ?u = "serve [Result (Some [Parsed ''A'' ''5'', Parsed ''B'' ''1'', Parsed ''A'' ''7''])]"
  let ?hs = "[\<lparr>account = ''A'', amount = ''5''\<rparr>, \<lparr>account = ''B'', amount = ''1''\<rparr>,
              \<lparr>account = ''A'', amount = ''7''\<rparr>]"
  have p0: "?u (req 1000 0) = Result (Some [Parsed ''A'' ''5'', Parsed ''B'' ''1'', Parsed ''A'' ''7''])"
    by (simp add: serve_page)
  have lp: "last_page 1000 (?u (req 1000 0))"
    by (simp add: p0 last_page_def)
  have "fetch_loop ?u 1000 0 [] [] = Some ([req 1000 0], ?hs)"
    using fetch_loop_from_start [of 0 1000 ?u] lp
    by (simp add: p0 appended_def EXCLUDED_ADDRESSES_def)
  then have f: "fetch_loop ?u 1000 0 [] [] = Some ([\<lparr>page = 0, limit = 1000\<rparr>], ?hs)"
    by (simp only: req_def)
  from holders_are_filtered_accounts_in_fetch_order [of ?u 1000 "[\<lparr>page = 0, limit = 1000\<rparr>]" ?hs] f
  have "?hs = concat (map (\<lambda>rq. appended (?u rq)) [\<lparr>page = 0, limit = 1000\<rparr>])"
    by blast
  with f show ?thesis by blast
qed

text \<open>
  The claim C9 as it is written, that no two records of the list have the same owner,
  fails on an owner with two accounts: both records are returned, and both are top holders.
\<close>

theorem owner_with_two_accounts_counterexample:
  "getTokenBalances (serve [Result (Some [Parsed ''A'' ''5'', Parsed ''A'' ''7''])]) =
     Some [\<lparr>account = ''A'', amount = ''5''\<rparr>, \<lparr>account = ''A'', amount = ''7''\<rparr>] \<and>
   \<not> distinct (map account [\<lparr>account = ''A'', amount = ''5''\<rparr>, \<lparr>account = ''A'', amount = ''7''\<rparr>]) \<and>
   calculateHHI (serve [Result (Some [Parsed ''A'' ''5'', Parsed ''A'' ''7''])]) =
     Some (Inr \<lparr>hhi = 5138, totalSupply = ''12'', holderCount = 2,
                topHolders =
                  [\<lparr>account = ''A'', amount = ''7'', percentage = 583333 / 10000\<rparr>,
                   \<lparr>account = ''A'', amount = ''5'', percentage = 416666 / 10000\<rparr>],
                concentrationLevel = ''Extreme concentration (risk of manipulation)''\<rparr>)"
proof -
  let ?u = "serve [Result (Some [Parsed ''A'' ''5'', Parsed ''A'' ''7''])]"
  let ?hs = "[\<lparr>account = ''A'', amount = ''5''\<rparr>, \<lparr>account = ''A'', amount = ''7''\<rparr>]"
  have v5: "StringToBigInt ''5'' = Some 5"
    by (simp add: StringToBigInt_def trim_def is_white_space_def digits_def digit_value_def)
  have v7: "StringToBigInt ''7'' = Some 7"
    by (simp add: StringToBigInt_def trim_def is_white_space_def digits_def digit_value_def)
  have t12: "toString 12 = ''12''"
    by (simp add: toString_def digits10.simps char_of_def bit_0)
  have p0: "?u (req 1000 0) = Result (Some [Parsed ''A'' ''5'', Parsed ''A'' ''7''])"
    by (simp add: serve_page)
  have lp: "last_page 1000 (?u (req 1000 0))"
    by (simp add: p0 last_page_def)
  have f: "getAllTokenHolders ?u 1000 = Some ?hs"
    using fetch_loop_from_start [of 0 1000 ?u] lp
    by (simp add: getAllTokenHolders_def p0 appended_def EXCLUDED_ADDRESSES_def)
  have c: "computeHHI ?hs =
     Inr \<lparr>hhi = 5138, totalSupply = ''12'', holderCount = 2,
                topHolders =
                  [\<lparr>account = ''A'', amount = ''7'', percentage = 583333 / 10000\<rparr>,
                   \<lparr>account = ''A'', amount = ''5'', percentage = 416666 / 10000\<rparr>],
                concentrationLevel = ''Extreme concentration (risk of manipulation)''\<rparr>"
    by (simp add: computeHHI_def rethrow_def hhi_body_def BigInt_def v5 v7 t12
        squared_def percentage_of_def bigint_div_def Number_def sort_holders_def
        getConcentrationLevel_def)
  from f c show ?thesis
    by (simp add: getTokenBalances_def calculateHHI_def)
qed

end
